theory Spec2Isabelle
  imports Complex_Main "HOL-Library.AList"
begin

section \<open>Data model\<close>

text \<open>
  A pandas DataFrame is modelled column-wise: an ordered association list from column
  names to columns, every column a list of cells. A float64 cell is either the
  missing-value marker or a number; numbers are exact reals, so rounding and the
  infinities of IEEE arithmetic are outside the model. The row index is left out: the
  code under study addresses rows by position only.
\<close>

datatype cell = NaN | Num real | Str string | Ts int

type_synonym column = "cell list"
type_synonym frame = "(string \<times> column) list"

text \<open>A float64 Series: \<open>None\<close> is NaN.\<close>

type_synonym fseries = "real option list"

datatype error = KeyError string | TypeError | ValueError | ZeroDivisionError | IOError

definition is_float :: "cell \<Rightarrow> bool" where
  "is_float c = (case c of NaN \<Rightarrow> True | Num r \<Rightarrow> True | _ \<Rightarrow> False)"

definition num_of :: "cell \<Rightarrow> real option" where
  "num_of c = (case c of Num r \<Rightarrow> Some r | _ \<Rightarrow> None)"

definition cell_of :: "real option \<Rightarrow> cell" where
  "cell_of v = (case v of None \<Rightarrow> NaN | Some r \<Rightarrow> Num r)"

text \<open>\<open>df[name]\<close>: KeyError when the column is absent.\<close>

definition get_col :: "frame \<Rightarrow> string \<Rightarrow> error + column" where
  "get_col df name = (case map_of df name of None \<Rightarrow> Inl (KeyError name) | Some c \<Rightarrow> Inr c)"

text \<open>
  Reading a column for float arithmetic: an object column (one holding a string or a
  timestamp) makes the numeric reductions raise TypeError.
\<close>

definition get_floats :: "frame \<Rightarrow> string \<Rightarrow> error + fseries" where
  "get_floats df name =
     (case get_col df name of
        Inl e \<Rightarrow> Inl e
      | Inr c \<Rightarrow> if list_all is_float c then Inr (map num_of c) else Inl TypeError)"

text \<open>\<open>df[name] = values\<close>: replaces the column in place, or appends it as the last one.\<close>

definition set_col :: "string \<Rightarrow> column \<Rightarrow> frame \<Rightarrow> frame" where
  "set_col name c df = AList.update name c df"

section \<open>Series reductions and comparisons\<close>

fun dropna :: "fseries \<Rightarrow> real list" where
  "dropna [] = []"
| "dropna (None # xs) = dropna xs"
| "dropna (Some v # xs) = v # dropna xs"

text \<open>\<open>Series.mean()\<close> skips NaN; the mean of no values is NaN.\<close>

definition pd_mean :: "fseries \<Rightarrow> real option" where
  "pd_mean xs =
     (let vs = dropna xs
      in if vs = [] then None else Some (sum_list vs / real (length vs)))"

text \<open>\<open>Series.std()\<close>: the sample standard deviation (ddof = 1) of the non-NaN values;
  NaN for fewer than two values.\<close>

definition pd_std :: "fseries \<Rightarrow> real option" where
  "pd_std xs =
     (let vs = dropna xs; n = length vs
      in if n < 2 then None
         else let m = sum_list vs / real n
              in Some (sqrt (sum_list (map (\<lambda>v. (v - m)\<^sup>2) vs) / real (n - 1))))"

definition fadd :: "real option \<Rightarrow> real option \<Rightarrow> real option" where
  "fadd a b = (case (a, b) of (Some x, Some y) \<Rightarrow> Some (x + y) | _ \<Rightarrow> None)"

text \<open>\<open>a > b\<close> on floats: False whenever an operand is NaN.\<close>

definition fgt :: "real option \<Rightarrow> real option \<Rightarrow> bool" where
  "fgt a b = (case (a, b) of (Some x, Some y) \<Rightarrow> x > y | _ \<Rightarrow> False)"

section \<open>RegimeFeatureEngineer.create_target_variable\<close>



section \<open>DataQualityPipeline: state and validators\<close>

datatype diagnostic =
    Missing_required_columns "string set"
  | Error_converting_data_types
  | Negative_values_found_in string
  | Invalid_OHLC_relationships_found
  | Negative_volume_values_found
  | Zero_volume_values_found
  | Negative_volatility_values_found

record pipeline =
  input_path :: string
  output_path :: string
  data :: "frame option"
  validation_errors :: "diagnostic list"

definition fsub :: "real option \<Rightarrow> real option \<Rightarrow> real option" where
  "fsub a b = (case (a, b) of (Some x, Some y) \<Rightarrow> Some (x - y) | _ \<Rightarrow> None)"

definition fmul :: "real option \<Rightarrow> real option \<Rightarrow> real option" where
  "fmul a b = (case (a, b) of (Some x, Some y) \<Rightarrow> Some (x * y) | _ \<Rightarrow> None)"

definition fsign :: "real option \<Rightarrow> real option" where
  "fsign a = map_option sgn a"

definition flt :: "real option \<Rightarrow> real option \<Rightarrow> bool" where
  "flt a b = (case (a, b) of (Some x, Some y) \<Rightarrow> x < y | _ \<Rightarrow> False)"

definition feq :: "real option \<Rightarrow> real option \<Rightarrow> bool" where
  "feq a b = (case (a, b) of (Some x, Some y) \<Rightarrow> x = y | _ \<Rightarrow> False)"

text \<open>
  \<open>np.abs((v - mean) / std) > 3\<close> for one row. A quotient by a zero standard
  deviation is NaN for a zero numerator (the comparison is then False) and an infinity
  otherwise (the comparison is then True).
\<close>

definition extreme_value :: "real option \<Rightarrow> real option \<Rightarrow> real option \<Rightarrow> bool" where
  "extreme_value mean std v =
     (case (v, mean, std) of
        (Some x, Some m, Some s) \<Rightarrow> if s = 0 then x \<noteq> m else \<bar>(x - m) / s\<bar> > 3
      | _ \<Rightarrow> False)"

text \<open>\<open>mean + 3 * std * np.sign(v - mean)\<close>\<close>

definition cap_value :: "real option \<Rightarrow> real option \<Rightarrow> real option \<Rightarrow> real option" where
  "cap_value mean std v = fadd mean (fmul (fmul (Some 3) std) (fsign (fsub v mean)))"

text \<open>
  The statistics on the right-hand side of the capping assignment are evaluated before
  the column is written, so they are those of the column as it was.
\<close>

definition validate_volatility_data :: "pipeline \<Rightarrow> error + (bool \<times> pipeline)" where
  "validate_volatility_data p =
     (case data p of
        None \<Rightarrow> Inl TypeError
      | Some df \<Rightarrow>
         (case get_floats df ''realized_volatility'' of
            Inl e \<Rightarrow> Inl e
          | Inr vol \<Rightarrow>
              let errs = (if list_ex (\<lambda>v. flt v (Some 0)) vol
                          then validation_errors p @ [Negative_volatility_values_found]
                          else validation_errors p);
                  mean = pd_mean vol;
                  std = pd_std vol;
                  extreme_values = map (extreme_value mean std) vol;
                  df' = (if list_ex id extreme_values
                         then set_col ''realized_volatility''
                                (map (\<lambda>v. cell_of (if extreme_value mean std v
                                                     then cap_value mean std v else v)) vol) df
                         else df)
              in Inr (True, p\<lparr>data := Some df', validation_errors := errs\<rparr>)))"

section \<open>VolatilityRegimeFeatures\<close>

record volatility_regime_features =
  n_regimes :: nat
  regime_labels :: "string list"

fun string_of_nat :: "nat \<Rightarrow> string" where
  "string_of_nat n =
     (if n < 10 then [char_of (48 + n)]
      else string_of_nat (n div 10) @ [char_of (48 + n mod 10)])"

text \<open>The constructor: \<open>Low\<close>, \<open>Medium\<close>, \<open>High\<close> for three regimes, else
  \<open>Regime_1\<close> ... \<open>Regime_n\<close>.\<close>

definition init_features :: "nat \<Rightarrow> volatility_regime_features" where
  "init_features n =
     \<lparr>n_regimes = n,
      regime_labels = (if n = 3 then [''Low'', ''Medium'', ''High'']
                       else map (\<lambda>i. ''Regime_'' @ string_of_nat (i + 1)) [0..<n])\<rparr>"

subsection \<open>Quantile binning\<close>

text \<open>
  \<open>Series.quantile(q)\<close> interpolates linearly between the two order statistics around
  position \<open>(n - 1) q\<close> of the sorted non-missing values. pandas and numpy do this in
  IEEE doubles: the position, its fractional part and the interpolation are each
  rounded, so that an edge whose exact value is an order statistic can come out a few
  units in the last place beside it, and which way depends on the version of the
  library. The rounding is outside the exact-real model of numbers; the quantile
  routine is therefore a parameter of every definition that calls it.
\<close>

type_synonym quantile_kernel = "fseries \<Rightarrow> real \<Rightarrow> real option"

text \<open>
  The interpolation without rounding; NaN for an empty series. It places the rows as
  pandas does whenever no value of the column lies within rounding distance of an
  interior edge, in particular when every interior edge falls strictly between two
  neighbouring values.
\<close>

definition linear_quantile :: quantile_kernel where
  "linear_quantile xs q =
     (let vs = sort (dropna xs); n = length vs
      in if n = 0 then None
         else let h = real (n - 1) * q;
                  lo = nat \<lfloor>h\<rfloor>;
                  hi = min (lo + 1) (n - 1)
              in Some (vs ! lo + (h - real lo) * (vs ! hi - vs ! lo)))"

text \<open>
  \<open>pd.qcut(x, q, labels)\<close>: the bin edges are the quantiles at 0, 1/q, ..., 1; edges
  that are not unique raise ValueError, as does a label list of the wrong length. A
  value is placed by \<open>searchsorted(bins, v, side='left')\<close>, the number of edges
  strictly below it, so bin k holds the values in (edge k-1, edge k]; a value equal to the
  lowest edge goes to the first bin; a missing value, and a value outside the edges,
  gets no label.
\<close>

definition bin_label :: "real option list \<Rightarrow> string list \<Rightarrow> real option \<Rightarrow> cell" where
  "bin_label bins labels v =
     (case v of
        None \<Rightarrow> NaN
      | Some r \<Rightarrow>
          let ids = (if Some r = bins ! 0 then 1
                     else length (filter (\<lambda>b. flt b (Some r)) bins))
          in if ids = 0 \<or> ids = length bins then NaN
             else Str (labels ! (ids - 1)))"

definition qcut :: "quantile_kernel \<Rightarrow> fseries \<Rightarrow> nat \<Rightarrow> string list \<Rightarrow> error + column" where
  "qcut quantile x q labels =
     (let bins = map (\<lambda>i. quantile x (real i / real q)) [0..<q + 1]
      in if \<not> distinct bins then Inl ValueError
         else if length labels \<noteq> length bins - 1 then Inl ValueError
         else Inr (map (bin_label bins labels) x))"

definition identify_regimes ::
  "quantile_kernel \<Rightarrow> volatility_regime_features \<Rightarrow> frame \<Rightarrow> string \<Rightarrow> error + frame" where
  "identify_regimes quantile self df volatility_col =
     (case get_floats df volatility_col of
        Inl e \<Rightarrow> Inl e
      | Inr x \<Rightarrow>
         (case qcut quantile x (n_regimes self) (regime_labels self) of
            Inl e \<Rightarrow> Inl e
          | Inr c \<Rightarrow> Inr (set_col ''vol_regime'' c df)))"

subsection \<open>Regime duration\<close>

text \<open>\<open>Series.shift()\<close>: every value moves down one row, the first row becomes missing.\<close>

definition shift :: "column \<Rightarrow> column" where
  "shift c = (if c = [] then [] else NaN # butlast c)"

text \<open>Elementwise \<open>!=\<close>: a missing value is unequal to everything, itself included.\<close>

definition cell_ne :: "cell \<Rightarrow> cell \<Rightarrow> bool" where
  "cell_ne a b = (a = NaN \<or> b = NaN \<or> a \<noteq> b)"

definition cumsum :: "nat list \<Rightarrow> nat list" where
  "cumsum xs = map (\<lambda>i. sum_list (take (Suc i) xs)) [0..<length xs]"

text \<open>\<open>groupby(key).cumcount()\<close>: for each row, the number of earlier rows with the
  same key.\<close>

definition cumcount :: "'a list \<Rightarrow> nat list" where
  "cumcount ks = map (\<lambda>i. length (filter (\<lambda>j. ks ! j = ks ! i) [0..<i])) [0..<length ks]"

definition calculate_regime_duration :: "frame \<Rightarrow> error + frame" where
  "calculate_regime_duration df =
     (case get_col df ''vol_regime'' of
        Inl e \<Rightarrow> Inl e
      | Inr regime \<Rightarrow>
          let regime_group =
                cumsum (map (\<lambda>(a, b). if cell_ne a b then 1 else 0) (zip regime (shift regime)));
              df1 = set_col ''regime_group'' (map (\<lambda>g. Num (real g)) regime_group) df;
              regime_durations = cumcount regime_group
          in Inr (set_col ''regime_duration'' (map (\<lambda>d. Num (real d)) regime_durations) df1))"

subsection \<open>Transition probabilities\<close>

text \<open>A labelled matrix: row labels, column labels, and the rows of entries.\<close>

record 'a matrix =
  row_index :: "cell list"
  col_index :: "cell list"
  entries :: "'a list list"

text \<open>
  \<open>pd.crosstab(a, b)\<close>: the pairs with a missing member are dropped; the row labels are
  the first members that occur, the column labels the second members that occur, and an
  entry counts the occurrences of its pair. (The order of the labels is that of first
  occurrence here; nothing below depends on it.)
\<close>

definition crosstab :: "column \<Rightarrow> column \<Rightarrow> nat matrix" where
  "crosstab a b =
     (let ps = filter (\<lambda>(x, y). x \<noteq> NaN \<and> y \<noteq> NaN) (zip a b);
          rs = remdups (map fst ps);
          cs = remdups (map snd ps)
      in \<lparr>row_index = rs, col_index = cs,
          entries = map (\<lambda>r. map (\<lambda>c. count_list ps (r, c)) cs) rs\<rparr>)"

text \<open>\<open>transitions.div(transitions.sum(axis=1), axis=0)\<close>: a zero by a zero row sum
  is NaN.\<close>

definition transition_probs :: "column \<Rightarrow> real option matrix" where
  "transition_probs regime =
     (let transitions = crosstab (shift regime) regime
      in \<lparr>row_index = row_index transitions, col_index = col_index transitions,
          entries = map (\<lambda>row. map (\<lambda>c. if sum_list row = 0 then None
                                          else Some (real c / real (sum_list row))) row)
                      (entries transitions)\<rparr>)"

text \<open>\<open>probs[regime]\<close>: the column of a label as a Series over the row labels; a
  KeyError naming the label when it is no column.\<close>

definition matrix_column :: "'a matrix \<Rightarrow> string \<Rightarrow> error + (cell \<times> 'a) list" where
  "matrix_column m regime =
     (if Str regime \<in> set (col_index m)
      then Inr (zip (row_index m)
                  (map (\<lambda>row. row ! (length (takeWhile (\<lambda>x. x \<noteq> Str regime) (col_index m))))
                     (entries m)))
      else Inl (KeyError regime))"

text \<open>\<open>Series.map(lookup)\<close>: a label that is no row of the lookup maps to NaN.\<close>

definition map_series :: "(cell \<times> real option) list \<Rightarrow> column \<Rightarrow> column" where
  "map_series lookup c =
     map (\<lambda>l. case map_of lookup l of None \<Rightarrow> NaN | Some v \<Rightarrow> cell_of v) c"

fun add_transition_probs :: "real option matrix \<Rightarrow> string list \<Rightarrow> frame \<Rightarrow> error + frame" where
  "add_transition_probs probs [] df = Inr df"
| "add_transition_probs probs (regime # rest) df =
     (case matrix_column probs regime of
        Inl e \<Rightarrow> Inl e
      | Inr lookup \<Rightarrow>
         (case get_col df ''vol_regime'' of
            Inl e \<Rightarrow> Inl e
          | Inr c \<Rightarrow>
              add_transition_probs probs rest
                (set_col (''transition_prob_'' @ regime) (map_series lookup c) df)))"

definition calculate_regime_transitions ::
  "volatility_regime_features \<Rightarrow> frame \<Rightarrow> error + frame" where
  "calculate_regime_transitions self df =
     (case get_col df ''vol_regime'' of
        Inl e \<Rightarrow> Inl e
      | Inr regime \<Rightarrow> add_transition_probs (transition_probs regime) (regime_labels self) df)"

subsection \<open>Boundary distances\<close>

definition calculate_regime_boundary_distance ::
  "quantile_kernel \<Rightarrow> volatility_regime_features \<Rightarrow> frame \<Rightarrow> string \<Rightarrow> error + frame" where
  "calculate_regime_boundary_distance quantile self df volatility_col =
     (if n_regimes self = 0 then Inl ZeroDivisionError
      else case get_floats df volatility_col of
        Inl e \<Rightarrow> Inl e
      | Inr x \<Rightarrow>
          let quantiles = map (\<lambda>i. quantile x (real i / real (n_regimes self)))
                            [0..<n_regimes self + 1];
              df1 = set_col ''distance_to_lower_boundary''
                      (map (\<lambda>v. cell_of (fsub v (hd quantiles))) x) df
          in (case get_floats df1 volatility_col of
                Inl e \<Rightarrow> Inl e
              | Inr x1 \<Rightarrow>
                  Inr (set_col ''distance_to_upper_boundary''
                         (map (\<lambda>v. cell_of (fsub (last quantiles) v)) x1) df1)))"

subsection \<open>create_features\<close>

text \<open>
  DataFrames are objects: a store maps references to frames. \<open>df.copy()\<close> allocates a
  new reference; each feature method writes its result back to the frame it was given
  and returns the same reference. When a method raises, the half-built copy is dropped.
\<close>

record store =
  frames :: "nat \<Rightarrow> frame option"
  next_ref :: nat

definition copy_frame :: "store \<Rightarrow> nat \<Rightarrow> (error + nat) \<times> store" where
  "copy_frame st a =
     (case frames st a of
        None \<Rightarrow> (Inl TypeError, st)
      | Some df \<Rightarrow>
          (Inr (next_ref st),
           st\<lparr>frames := (frames st)(next_ref st \<mapsto> df), next_ref := Suc (next_ref st)\<rparr>))"

definition in_place :: "(frame \<Rightarrow> error + frame) \<Rightarrow> store \<Rightarrow> nat \<Rightarrow> (error + nat) \<times> store" where
  "in_place f st a =
     (case frames st a of
        None \<Rightarrow> (Inl TypeError, st)
      | Some df \<Rightarrow>
         (case f df of
            Inl e \<Rightarrow> (Inl e, st)
          | Inr df' \<Rightarrow> (Inr a, st\<lparr>frames := (frames st)(a \<mapsto> df')\<rparr>)))"

definition and_then ::
  "(error + nat) \<times> store \<Rightarrow> (store \<Rightarrow> nat \<Rightarrow> (error + nat) \<times> store) \<Rightarrow> (error + nat) \<times> store" where
  "and_then r f = (case r of (Inl e, st) \<Rightarrow> (Inl e, st) | (Inr a, st) \<Rightarrow> f st a)"

definition create_features ::
  "quantile_kernel \<Rightarrow> volatility_regime_features \<Rightarrow> store \<Rightarrow> nat \<Rightarrow> (error + nat) \<times> store" where
  "create_features quantile self st df =
     and_then (and_then (and_then (and_then
       (copy_frame st df)
       (in_place (\<lambda>d. identify_regimes quantile self d ''realized_volatility'')))
       (in_place calculate_regime_duration))
       (in_place (calculate_regime_transitions self)))
       (in_place (\<lambda>d. calculate_regime_boundary_distance quantile self d ''realized_volatility''))"

section \<open>DataQualityPipeline: stages\<close>

text \<open>
  The parts of pandas whose results no property below reads are parameters of the
  model: the text parsers behind \<open>to_datetime\<close> and \<open>to_numeric\<close>, and the float
  kernels that compute the derived columns.
\<close>

record pandas =
  parse_datetime :: "string \<Rightarrow> int option"
  parse_numeric :: "string \<Rightarrow> real option"
  pct_change :: "column \<Rightarrow> column"
  rolling_mean :: "nat \<Rightarrow> column \<Rightarrow> column"
  rolling_std :: "nat \<Rightarrow> column \<Rightarrow> column"
  dt_dayofweek :: "column \<Rightarrow> column"
  dt_month :: "column \<Rightarrow> column"
  col_sub :: "column \<Rightarrow> column \<Rightarrow> column"
  col_div :: "column \<Rightarrow> column \<Rightarrow> column"

text \<open>
  Files hold tables of cells; the text layer of CSV is not modelled, so a timestamp
  that is written is read back as the same timestamp.
\<close>

record filesystem =
  files :: "string \<Rightarrow> frame option"
  writable :: "string \<Rightarrow> bool"

definition ebind :: "error + 'a \<Rightarrow> ('a \<Rightarrow> error + 'b) \<Rightarrow> error + 'b" where
  "ebind m f = (case m of Inl e \<Rightarrow> Inl e | Inr x \<Rightarrow> f x)"

definition the_data :: "pipeline \<Rightarrow> error + frame" where
  "the_data p = (case data p of None \<Rightarrow> Inl TypeError | Some df \<Rightarrow> Inr df)"

definition load_data :: "filesystem \<Rightarrow> pipeline \<Rightarrow> error + pipeline" where
  "load_data fs p =
     (case files fs (input_path p) of
        None \<Rightarrow> Inl IOError
      | Some df \<Rightarrow> Inr (p\<lparr>data := Some df\<rparr>))"

subsection \<open>validate_data_structure\<close>

definition required_columns :: "string list" where
  "required_columns = [''Date'', ''Open'', ''High'', ''Low'', ''Close'', ''Volume'',
                       ''log_returns'', ''realized_volatility'']"

definition numeric_columns :: "string list" where
  "numeric_columns = [''Open'', ''High'', ''Low'', ''Close'', ''Volume'',
                      ''log_returns'', ''realized_volatility'']"

text \<open>\<open>pd.to_datetime\<close> on one cell: text that does not parse raises.\<close>

definition to_datetime_cell :: "pandas \<Rightarrow> cell \<Rightarrow> cell option" where
  "to_datetime_cell pd c =
     (case c of
        NaN \<Rightarrow> Some NaN
      | Ts t \<Rightarrow> Some (Ts t)
      | Num r \<Rightarrow> Some (Ts \<lfloor>r\<rfloor>)
      | Str s \<Rightarrow> map_option Ts (parse_datetime pd s))"

text \<open>\<open>pd.to_numeric(errors='coerce')\<close> on one cell: text that does not parse becomes
  the missing-value marker.\<close>

definition to_numeric_cell :: "pandas \<Rightarrow> cell \<Rightarrow> cell" where
  "to_numeric_cell pd c =
     (case c of
        NaN \<Rightarrow> NaN
      | Num r \<Rightarrow> Num r
      | Ts t \<Rightarrow> Num (real_of_int t)
      | Str s \<Rightarrow> (case parse_numeric pd s of None \<Rightarrow> NaN | Some r \<Rightarrow> Num r))"

fun convert_numeric :: "pandas \<Rightarrow> string list \<Rightarrow> frame \<Rightarrow> error + frame" where
  "convert_numeric pd [] df = Inr df"
| "convert_numeric pd (col # rest) df =
     (case get_col df col of
        Inl e \<Rightarrow> Inl e
      | Inr c \<Rightarrow> convert_numeric pd rest (set_col col (map (to_numeric_cell pd) c) df))"

text \<open>
  A failed conversion is caught inside the method: it is recorded and the method
  returns False, the table as it was.
\<close>

definition validate_data_structure :: "pandas \<Rightarrow> pipeline \<Rightarrow> error + (bool \<times> pipeline)" where
  "validate_data_structure pd p =
     ebind (the_data p) (\<lambda>df.
       let missing_columns = filter (\<lambda>c. c \<notin> set (map fst df)) required_columns
       in if missing_columns \<noteq> []
          then Inr (False, p\<lparr>validation_errors :=
                      validation_errors p @ [Missing_required_columns (set missing_columns)]\<rparr>)
          else (case ebind (get_col df ''Date'') (\<lambda>dates.
                       case those (map (to_datetime_cell pd) dates) of
                         None \<Rightarrow> Inl ValueError
                       | Some ds \<Rightarrow> convert_numeric pd numeric_columns (set_col ''Date'' ds df)) of
                  Inl e \<Rightarrow> Inr (False, p\<lparr>validation_errors :=
                                     validation_errors p @ [Error_converting_data_types]\<rparr>)
                | Inr df' \<Rightarrow> Inr (True, p\<lparr>data := Some df'\<rparr>)))"

subsection \<open>clean_data\<close>

definition is_ts :: "cell \<Rightarrow> bool" where
  "is_ts c = (case c of Ts t \<Rightarrow> True | _ \<Rightarrow> False)"

definition ts_of :: "cell \<Rightarrow> int" where
  "ts_of c = (case c of Ts t \<Rightarrow> t | _ \<Rightarrow> 0)"

text \<open>
  \<open>sort_values('Date')\<close> as the row order it produces: ascending timestamps, then the
  rows without one. Rows with equal timestamps keep their order here; pandas leaves
  their order to the sorting routine.
\<close>

definition sort_order :: "column \<Rightarrow> nat list" where
  "sort_order dates =
     sort_key (\<lambda>i. ts_of (dates ! i)) (filter (\<lambda>i. is_ts (dates ! i)) [0..<length dates])
     @ filter (\<lambda>i. \<not> is_ts (dates ! i)) [0..<length dates]"

text \<open>The rows of a column in a given order; a table is rectangular, so every
  position of the order lies inside the column.\<close>

definition take_rows :: "nat list \<Rightarrow> column \<Rightarrow> column" where
  "take_rows order c = map (\<lambda>i. if i < length c then c ! i else NaN) order"

fun ffill_from :: "cell \<Rightarrow> column \<Rightarrow> column" where
  "ffill_from prev [] = []"
| "ffill_from prev (c # cs) =
     (if c = NaN then prev # ffill_from prev cs else c # ffill_from c cs)"

definition ffill :: "column \<Rightarrow> column" where
  "ffill c = ffill_from NaN c"

definition bfill :: "column \<Rightarrow> column" where
  "bfill c = rev (ffill (rev c))"

text \<open>\<open>drop_duplicates(subset=['Date'])\<close>: a row is kept when no earlier row has its
  date; two missing dates count as equal.\<close>

definition first_occurrences :: "column \<Rightarrow> bool list" where
  "first_occurrences dates = map (\<lambda>i. dates ! i \<notin> set (take i dates)) [0..<length dates]"

definition keep_rows :: "bool list \<Rightarrow> column \<Rightarrow> column" where
  "keep_rows keep c = map fst (filter snd (zip c keep))"

definition map_columns :: "(column \<Rightarrow> column) \<Rightarrow> frame \<Rightarrow> frame" where
  "map_columns f df = map (\<lambda>(name, c). (name, f c)) df"

text \<open>\<open>drop(columns=names, errors='ignore')\<close>\<close>

definition drop_columns :: "string list \<Rightarrow> frame \<Rightarrow> frame" where
  "drop_columns names df = filter (\<lambda>(name, c). name \<notin> set names) df"

definition columns_to_drop :: "string list" where
  "columns_to_drop = [''Dividends'', ''Stock Splits'']"

definition clean_data :: "pipeline \<Rightarrow> error + pipeline" where
  "clean_data p =
     ebind (the_data p) (\<lambda>df.
       let df1 = drop_columns columns_to_drop df
       in ebind (get_col df1 ''Date'') (\<lambda>dates.
            let df2 = map_columns (take_rows (sort_order dates)) df1;
                df3 = map_columns (\<lambda>c. bfill (ffill c)) df2
            in ebind (get_col df3 ''Date'') (\<lambda>dates3.
                 Inr (p\<lparr>data := Some (map_columns (keep_rows (first_occurrences dates3)) df3)\<rparr>))))"

subsection \<open>validate_price_data and validate_volume_data\<close>

fun negative_prices :: "frame \<Rightarrow> string list \<Rightarrow> diagnostic list \<Rightarrow> error + diagnostic list" where
  "negative_prices df [] errs = Inr errs"
| "negative_prices df (col # rest) errs =
     (case get_floats df col of
        Inl e \<Rightarrow> Inl e
      | Inr c \<Rightarrow>
          negative_prices df rest
            (if list_ex (\<lambda>v. flt v (Some 0)) c then errs @ [Negative_values_found_in col]
             else errs))"

definition invalid_ohlc :: "real option \<times> real option \<times> real option \<times> real option \<Rightarrow> bool" where
  "invalid_ohlc r = (case r of (opn, high, low, close) \<Rightarrow>
     flt high low \<or> fgt opn high \<or> flt opn low \<or> fgt close high \<or> flt close low)"

definition validate_price_data :: "pipeline \<Rightarrow> error + (bool \<times> pipeline)" where
  "validate_price_data p =
     ebind (the_data p) (\<lambda>df.
     ebind (negative_prices df [''Open'', ''High'', ''Low'', ''Close''] (validation_errors p)) (\<lambda>errs.
     ebind (get_floats df ''High'') (\<lambda>high.
     ebind (get_floats df ''Low'') (\<lambda>low.
     ebind (get_floats df ''Open'') (\<lambda>opn.
     ebind (get_floats df ''Close'') (\<lambda>close.
       let errs' = (if list_ex invalid_ohlc (zip opn (zip high (zip low close)))
                    then errs @ [Invalid_OHLC_relationships_found] else errs)
       in Inr (errs' = [], p\<lparr>validation_errors := errs'\<rparr>)))))))"

definition validate_volume_data :: "pipeline \<Rightarrow> error + (bool \<times> pipeline)" where
  "validate_volume_data p =
     ebind (the_data p) (\<lambda>df.
     ebind (get_floats df ''Volume'') (\<lambda>volume.
       let errs1 = (if list_ex (\<lambda>v. flt v (Some 0)) volume
                    then validation_errors p @ [Negative_volume_values_found]
                    else validation_errors p);
           errs2 = (if list_ex (\<lambda>v. feq v (Some 0)) volume
                    then errs1 @ [Zero_volume_values_found] else errs1)
       in Inr (errs2 = [], p\<lparr>validation_errors := errs2\<rparr>)))"

subsection \<open>enhance_data and normalize_data\<close>

text \<open>A list of assignments \<open>df[name] = expression(df)\<close>, run in order.\<close>

fun assign_all :: "(string \<times> (frame \<Rightarrow> error + column)) list \<Rightarrow> frame \<Rightarrow> error + frame" where
  "assign_all [] df = Inr df"
| "assign_all ((name, expr) # rest) df =
     (case expr df of
        Inl e \<Rightarrow> Inl e
      | Inr c \<Rightarrow> assign_all rest (set_col name c df))"

definition read_col :: "string \<Rightarrow> frame \<Rightarrow> error + column" where
  "read_col name df = get_col df name"

definition on1 :: "(column \<Rightarrow> column) \<Rightarrow> (frame \<Rightarrow> error + column) \<Rightarrow> frame \<Rightarrow> error + column" where
  "on1 f a df = ebind (a df) (\<lambda>x. Inr (f x))"

definition on2 ::
  "(column \<Rightarrow> column \<Rightarrow> column) \<Rightarrow> (frame \<Rightarrow> error + column) \<Rightarrow> (frame \<Rightarrow> error + column)
     \<Rightarrow> frame \<Rightarrow> error + column" where
  "on2 f a b df = ebind (a df) (\<lambda>x. ebind (b df) (\<lambda>y. Inr (f x y)))"

text \<open>\<open>isin([5, 6]).astype(int)\<close>\<close>

definition is_weekend :: "column \<Rightarrow> column" where
  "is_weekend c = map (\<lambda>d. if d = Num 5 \<or> d = Num 6 then Num 1 else Num 0) c"

definition enhancements :: "pandas \<Rightarrow> (string \<times> (frame \<Rightarrow> error + column)) list" where
  "enhancements pd =
     [(''Daily_Range'', on2 (col_div pd) (on2 (col_sub pd) (read_col ''High'') (read_col ''Low'')) (read_col ''Close'')),
      (''Price_Change'', on1 (pct_change pd) (read_col ''Close'')),
      (''Price_Volatility'', on1 (rolling_std pd 5) (read_col ''Price_Change'')),
      (''Volume_MA5'', on1 (rolling_mean pd 5) (read_col ''Volume'')),
      (''Volume_MA20'', on1 (rolling_mean pd 20) (read_col ''Volume'')),
      (''Volume_Ratio'', on2 (col_div pd) (read_col ''Volume'') (read_col ''Volume_MA5'')),
      (''Volatility_MA5'', on1 (rolling_mean pd 5) (read_col ''realized_volatility'')),
      (''Volatility_MA20'', on1 (rolling_mean pd 20) (read_col ''realized_volatility'')),
      (''Volatility_Ratio'', on2 (col_div pd) (read_col ''realized_volatility'') (read_col ''Volatility_MA5'')),
      (''Day_of_Week'', on1 (dt_dayofweek pd) (read_col ''Date'')),
      (''Month'', on1 (dt_month pd) (read_col ''Date'')),
      (''Is_Weekend'', on1 is_weekend (read_col ''Day_of_Week'')),
      (''Price_Trend'', on1 (pct_change pd) (on1 (rolling_mean pd 5) (read_col ''Close''))),
      (''Volume_Trend'', on1 (pct_change pd) (on1 (rolling_mean pd 5) (read_col ''Volume''))),
      (''Return_Momentum'', on1 (rolling_mean pd 5) (read_col ''log_returns'')),
      (''Volatility_Momentum'', on1 (rolling_mean pd 5) (read_col ''realized_volatility''))]"

definition enhance_data :: "pandas \<Rightarrow> pipeline \<Rightarrow> error + pipeline" where
  "enhance_data pd p =
     ebind (the_data p) (\<lambda>df.
     ebind (assign_all (enhancements pd) df) (\<lambda>df'. Inr (p\<lparr>data := Some df'\<rparr>)))"

definition features_to_normalize :: "string list" where
  "features_to_normalize =
     [''Volume'', ''Daily_Range'', ''Price_Change'', ''Price_Volatility'', ''Volume_Ratio'',
      ''Volatility_Ratio'', ''Price_Trend'', ''Volume_Trend'', ''Return_Momentum'',
      ''Volatility_Momentum'']"

text \<open>\<open>(c - c.mean()) / c.std()\<close>, the scalars broadcast over the rows.\<close>

definition zscore :: "pandas \<Rightarrow> column \<Rightarrow> column" where
  "zscore pd c =
     col_div pd (col_sub pd c (map (\<lambda>_. cell_of (pd_mean (map num_of c))) c))
       (map (\<lambda>_. cell_of (pd_std (map num_of c))) c)"

fun normalize_all :: "pandas \<Rightarrow> string list \<Rightarrow> frame \<Rightarrow> frame" where
  "normalize_all pd [] df = df"
| "normalize_all pd (feature # rest) df =
     normalize_all pd rest
       (case map_of df feature of
          None \<Rightarrow> df
        | Some c \<Rightarrow> set_col (feature @ ''_normalized'') (zscore pd c) df)"

definition normalize_data :: "pandas \<Rightarrow> pipeline \<Rightarrow> error + pipeline" where
  "normalize_data pd p =
     ebind (the_data p) (\<lambda>df. Inr (p\<lparr>data := Some (normalize_all pd features_to_normalize df)\<rparr>))"

subsection \<open>save_data and run_pipeline\<close>

definition save_data :: "filesystem \<Rightarrow> pipeline \<Rightarrow> error + filesystem" where
  "save_data fs p =
     ebind (the_data p) (\<lambda>df.
       if writable fs (output_path p)
       then Inr (fs\<lparr>files := (files fs)(output_path p \<mapsto> df)\<rparr>)
       else Inl IOError)"

text \<open>
  Every exception inside \<open>run_pipeline\<close> is caught and turns into the result False;
  the pipeline object is then reported as it was before the stage that raised.
\<close>

definition run_pipeline :: "pandas \<Rightarrow> filesystem \<Rightarrow> pipeline \<Rightarrow> bool \<times> pipeline \<times> filesystem" where
  "run_pipeline pd fs p =
     (case load_data fs p of Inl e \<Rightarrow> (False, p, fs) | Inr p1 \<Rightarrow>
      case validate_data_structure pd p1 of Inl e \<Rightarrow> (False, p1, fs) | Inr (ok2, p2) \<Rightarrow>
      if \<not> ok2 then (False, p2, fs) else
      case clean_data p2 of Inl e \<Rightarrow> (False, p2, fs) | Inr p3 \<Rightarrow>
      case validate_price_data p3 of Inl e \<Rightarrow> (False, p3, fs) | Inr (ok4, p4) \<Rightarrow>
      if \<not> ok4 then (False, p4, fs) else
      case validate_volume_data p4 of Inl e \<Rightarrow> (False, p4, fs) | Inr (ok5, p5) \<Rightarrow>
      if \<not> ok5 then (False, p5, fs) else
      case validate_volatility_data p5 of Inl e \<Rightarrow> (False, p5, fs) | Inr (ok6, p6) \<Rightarrow>
      if \<not> ok6 then (False, p6, fs) else
      case enhance_data pd p6 of Inl e \<Rightarrow> (False, p6, fs) | Inr p7 \<Rightarrow>
      case normalize_data pd p7 of Inl e \<Rightarrow> (False, p7, fs) | Inr p8 \<Rightarrow>
      case save_data fs p8 of Inl e \<Rightarrow> (False, p8, fs) | Inr fs' \<Rightarrow> (True, p8, fs'))"


section \<open>Example inputs\<close>

text \<open>Fifteen rows of volatility 0 and one of 16: mean 1, sample standard deviation 4.\<close>

definition spike :: fseries where
  "spike = [Some 0, Some 0, Some 0, Some 0, Some 0, Some 0, Some 0, Some 0,
            Some 0, Some 0, Some 0, Some 0, Some 0, Some 0, Some 0, Some 16]"

definition spike_pipeline :: pipeline where
  "spike_pipeline =
     \<lparr>input_path = ''raw.csv'', output_path = ''processed.csv'',
      data = Some [(''realized_volatility'', map cell_of spike)],
      validation_errors = []\<rparr>"

text \<open>A column is not constant when it holds two different numbers.\<close>

definition nonconstant :: "fseries \<Rightarrow> bool" where
  "nonconstant xs = (\<exists>a \<in> set (dropna xs). \<exists>b \<in> set (dropna xs). a \<noteq> b)"

text \<open>The flags \<open>regime != regime.shift()\<close> as 0 or 1.\<close>

definition change_flags :: "column \<Rightarrow> nat list" where
  "change_flags regime = map (\<lambda>(a, b). if cell_ne a b then 1 else 0) (zip regime (shift regime))"

definition duration_example :: frame where
  "duration_example = [(''vol_regime'', [Str ''Low'', Str ''Low'', NaN, NaN])]"

definition transition_example :: column where
  "transition_example = [Str ''Low'', Str ''Low'', Str ''High'']"

text \<open>The names of the columns that create_features writes.\<close>

definition derived_columns :: "volatility_regime_features \<Rightarrow> string list" where
  "derived_columns self =
     [''vol_regime'', ''regime_group'', ''regime_duration'']
     @ map (\<lambda>r. ''transition_prob_'' @ r) (regime_labels self)
     @ [''distance_to_lower_boundary'', ''distance_to_upper_boundary'']"

text \<open>
  The frame at reference \<open>a\<close> is still \<open>t\<close>, and a returned reference is another one,
  whose frame agrees with \<open>t\<close> on every column name outside \<open>D\<close>.
\<close>

definition preserved :: "nat \<Rightarrow> frame \<Rightarrow> string set \<Rightarrow> (error + nat) \<times> store \<Rightarrow> bool" where
  "preserved a t D rs =
     (frames (snd rs) a = Some t \<and>
      (\<forall>b. fst rs = Inr b \<longrightarrow>
         b \<noteq> a \<and> (\<exists>t'. frames (snd rs) b = Some t' \<and>
                     (\<forall>name. name \<notin> D \<longrightarrow> get_col t' name = get_col t name))))"

text \<open>
  Six rows that already carry a column named vol_regime. The interior edges of the
  three-way binning are 8/3 and 13/3, each strictly between two neighbouring values.
\<close>

definition relabel_example :: frame where
  "relabel_example =
     [(''realized_volatility'', [Num 1, Num 2, Num 3, Num 4, Num 5, Num 6]),
      (''vol_regime'', [Str ''Calm'', Str ''Calm'', Str ''Calm'', Str ''Calm'', Str ''Calm'',
                        Str ''Calm''])]"

definition relabel_store :: store where
  "relabel_store = \<lparr>frames = [0 \<mapsto> relabel_example], next_ref = 1\<rparr>"

text \<open>What clean_data makes of one column, given the Date column of the same table.\<close>

definition clean_col :: "column \<Rightarrow> column \<Rightarrow> column" where
  "clean_col dates c =
     keep_rows (first_occurrences (bfill (ffill (take_rows (sort_order dates) dates))))
       (bfill (ffill (take_rows (sort_order dates) c)))"

text \<open>A pandas whose parsers accept no text and whose kernels yield missing values.\<close>

definition plain_pandas :: pandas where
  "plain_pandas =
     \<lparr>parse_datetime = (\<lambda>s. None), parse_numeric = (\<lambda>s. None),
      pct_change = map (\<lambda>c. NaN),
      rolling_mean = (\<lambda>n. map (\<lambda>c. NaN)), rolling_std = (\<lambda>n. map (\<lambda>c. NaN)),
      dt_dayofweek = map (\<lambda>c. NaN), dt_month = map (\<lambda>c. NaN),
      col_sub = (\<lambda>a b. map (\<lambda>c. NaN) a), col_div = (\<lambda>a b. map (\<lambda>c. NaN) a)\<rparr>"

definition short_table :: frame where
  "short_table = [(''Date'', [Ts 1]), (''Open'', [Num 1])]"

definition short_files :: filesystem where
  "short_files = \<lparr>files = [''raw.csv'' \<mapsto> short_table], writable = (\<lambda>path. True)\<rparr>"

definition new_pipeline :: "string \<Rightarrow> string \<Rightarrow> pipeline" where
  "new_pipeline inp out =
     \<lparr>input_path = inp, output_path = out, data = None, validation_errors = []\<rparr>"

text \<open>Two consistent price rows, the second with zero volume.\<close>

definition zero_volume_table :: frame where
  "zero_volume_table =
     [(''Date'', [Ts 1, Ts 2]),
      (''Open'', [Num 9, Num (19/2)]), (''High'', [Num 10, Num 11]),
      (''Low'', [Num 8, Num 9]), (''Close'', [Num (19/2), Num 10]),
      (''Volume'', [Num 100, Num 0]),
      (''log_returns'', [Num 0, Num (1/20)]),
      (''realized_volatility'', [Num (1/50), Num (1/50)])]"

definition zero_volume_files :: filesystem where
  "zero_volume_files = \<lparr>files = [''raw.csv'' \<mapsto> zero_volume_table], writable = (\<lambda>path. True)\<rparr>"






text \<open>Two consistent rows, the first with a negative volatility.\<close>

definition negative_volatility_table :: frame where
  "negative_volatility_table =
     [(''Date'', [Ts 1, Ts 2]),
      (''Open'', [Num 9, Num (19/2)]), (''High'', [Num 10, Num 11]),
      (''Low'', [Num 8, Num 9]), (''Close'', [Num (19/2), Num 10]),
      (''Volume'', [Num 100, Num 120]),
      (''log_returns'', [Num 0, Num (1/20)]),
      (''realized_volatility'', [Num (- 1/50), Num (1/50)])]"

definition negative_volatility_files :: filesystem where
  "negative_volatility_files =
     \<lparr>files = [''raw.csv'' \<mapsto> negative_volatility_table], writable = (\<lambda>path. True)\<rparr>"

text \<open>Two rows, the first with a negative opening price.\<close>

definition negative_price_table :: frame where
  "negative_price_table =
     [(''Date'', [Ts 1, Ts 2]),
      (''Open'', [Num (- 1), Num (19/2)]), (''High'', [Num 10, Num 11]),
      (''Low'', [Num (- 2), Num 9]), (''Close'', [Num (19/2), Num 10]),
      (''Volume'', [Num 100, Num 120]),
      (''log_returns'', [Num 0, Num (1/20)]),
      (''realized_volatility'', [Num (1/50), Num (1/50)])]"

definition negative_price_files :: filesystem where
  "negative_price_files =
     \<lparr>files = [''raw.csv'' \<mapsto> negative_price_table], writable = (\<lambda>path. True)\<rparr>"

text \<open>A column on which a fill changes nothing: no value is missing, or all are.\<close>

definition settled :: "column \<Rightarrow> bool" where
  "settled c = (NaN \<notin> set c \<or> (\<forall>x \<in> set c. x = NaN))"

text \<open>A Date column as clean_data leaves it: no date twice, and either timestamps in
  ascending order or nothing but missing values.\<close>

definition tidy_dates :: "column \<Rightarrow> bool" where
  "tidy_dates d =
     (distinct d \<and>
      ((\<forall>x \<in> set d. is_ts x) \<and> sorted (map ts_of d) \<or> (\<forall>x \<in> set d. x = NaN)))"

section \<open>Target label\<close>









section \<open>Volatility capping\<close>

lemma get_col_set_col: "get_col (set_col n c df) n' = (if n' = n then Inr c else get_col df n')"
  by (simp add: get_col_def set_col_def update_conv')

lemma num_of_cell_of: "num_of (cell_of v) = v"
  by (cases v) (simp_all add: num_of_def cell_of_def)

lemma is_float_cell_of: "is_float (cell_of v)"
  by (cases v) (simp_all add: is_float_def cell_of_def)

lemma cell_of_num_of: "is_float c \<Longrightarrow> cell_of (num_of c) = c"
  by (cases c) (simp_all add: is_float_def num_of_def cell_of_def)

lemma get_floats_set_col:
  "get_floats (set_col n (map cell_of vs) df) n = Inr vs"
  by (simp add: get_floats_def get_col_set_col list_all_iff is_float_cell_of num_of_cell_of comp_def)

lemma sum_list_pos_member:
  fixes f :: "'a \<Rightarrow> real"
  shows "\<forall>x\<in>set xs. 0 \<le> f x \<Longrightarrow> y \<in> set xs \<Longrightarrow> 0 < f y \<Longrightarrow> 0 < sum_list (map f xs)"
proof (induction xs)
  case Nil then show ?case by simp
next
  case (Cons a xs)
  have nn: "0 \<le> sum_list (map f xs)" using Cons.prems(1) by (intro sum_list_nonneg) auto
  show ?case
  proof (cases "y = a")
    case True
    with Cons.prems(3) nn show ?thesis by simp
  next
    case False
    with Cons have "0 < sum_list (map f xs)" by simp
    moreover have "0 \<le> f a" using Cons.prems(1) by simp
    ultimately show ?thesis by simp
  qed
qed

lemma two_distinct_length:
  assumes "a \<in> set vs" "b \<in> set vs" "a \<noteq> b" shows "2 \<le> length vs"
proof -
  have "{a, b} \<subseteq> set vs" using assms by simp
  then have "card {a, b} \<le> card (set vs)" by (simp add: card_mono)
  also have "\<dots> \<le> length vs" by (rule card_length)
  finally show ?thesis using assms(3) by simp
qed

lemma nonconstant_std:
  assumes "nonconstant xs"
  shows "\<exists>m s. pd_mean xs = Some m \<and> pd_std xs = Some s \<and> 0 < s"
proof -
  from assms obtain a b where ab: "a \<in> set (dropna xs)" "b \<in> set (dropna xs)" "a \<noteq> b"
    by (auto simp: nonconstant_def)
  let ?vs = "dropna xs"
  let ?m = "sum_list ?vs / real (length ?vs)"
  have n2: "2 \<le> length ?vs" using ab by (rule two_distinct_length)
  obtain y where y: "y \<in> set ?vs" "y \<noteq> ?m" using ab by metis
  have "0 < sum_list (map (\<lambda>v. (v - ?m)\<^sup>2) ?vs)"
    by (rule sum_list_pos_member[where y = y]) (use y in auto)
  moreover have "0 < real (length ?vs - 1)" using n2 by simp
  ultimately have "0 < sqrt (sum_list (map (\<lambda>v. (v - ?m)\<^sup>2) ?vs) / real (length ?vs - 1))"
    by simp
  moreover have "?vs \<noteq> []" using n2 by auto
  ultimately show ?thesis using n2
    by (simp add: pd_mean_def pd_std_def Let_def)
qed

lemma cap_within:
  fixes s m x :: real
  assumes "0 < s"
  shows "\<bar>((m + 3 * s * sgn (x - m)) - m) / s\<bar> \<le> 3"
proof -
  have "((m + 3 * s * sgn (x - m)) - m) / s = 3 * sgn (x - m)" using assms by simp
  moreover have "\<bar>3 * sgn (x - m)\<bar> \<le> 3" by (simp add: abs_mult sgn_real_def)
  ultimately show ?thesis by simp
qed

lemma capped_row:
  assumes "0 < s"
  shows "(if extreme_value (Some m) (Some s) v then cap_value (Some m) (Some s) v else v)
     = (case v of None \<Rightarrow> None
        | Some x \<Rightarrow> if \<bar>(x - m) / s\<bar> > 3 then Some (m + 3 * s * sgn (x - m)) else Some x)"
  using assms
  by (cases v) (simp_all add: extreme_value_def cap_value_def fadd_def fmul_def fsub_def fsign_def)

lemma validate_volatility_data_result:
  assumes d: "data p = Some df" and f: "get_floats df ''realized_volatility'' = Inr vol"
  shows "\<exists>p' df'. validate_volatility_data p = Inr (True, p') \<and> data p' = Some df' \<and>
     get_floats df' ''realized_volatility'' =
       Inr (map (\<lambda>v. if extreme_value (pd_mean vol) (pd_std vol) v
                       then cap_value (pd_mean vol) (pd_std vol) v else v) vol)"
proof (cases "list_ex id (map (extreme_value (pd_mean vol) (pd_std vol)) vol)")
  case True
  have "map (\<lambda>v. cell_of (if extreme_value (pd_mean vol) (pd_std vol) v
                       then cap_value (pd_mean vol) (pd_std vol) v else v)) vol
      = map cell_of (map (\<lambda>v. if extreme_value (pd_mean vol) (pd_std vol) v
                       then cap_value (pd_mean vol) (pd_std vol) v else v) vol)"
    by simp
  with True d f show ?thesis
    by (simp add: validate_volatility_data_def Let_def get_floats_set_col del: map_map)
next
  case False
  then have "\<forall>v \<in> set vol. \<not> extreme_value (pd_mean vol) (pd_std vol) v"
    by (auto simp: list_ex_iff)
  then have "map (\<lambda>v. if extreme_value (pd_mean vol) (pd_std vol) v
                       then cap_value (pd_mean vol) (pd_std vol) v else v) vol = vol"
    by (simp add: map_idI)
  with False d f show ?thesis
    by (simp add: validate_volatility_data_def Let_def)
qed

text \<open>
  C2. When the realized-volatility column is not constant, validate_volatility_data
  succeeds and, with m and s the mean and standard deviation of the column before the
  call (s > 0): a value whose z-score has absolute value above 3 becomes
  m + 3 s sign(value - m), every other value and every missing marker is unchanged,
  and every value of the column after the call has a z-score of absolute value at
  most 3 with respect to m and s.
\<close>

theorem validate_volatility_data_caps:
  assumes "data p = Some df" and "get_floats df ''realized_volatility'' = Inr vol"
    and "nonconstant vol"
  shows "\<exists>p' df' vol' m s.
     validate_volatility_data p = Inr (True, p') \<and> data p' = Some df' \<and>
     get_floats df' ''realized_volatility'' = Inr vol' \<and>
     pd_mean vol = Some m \<and> pd_std vol = Some s \<and> 0 < s \<and> length vol' = length vol \<and>
     (\<forall>i < length vol.
        (case vol ! i of
           None \<Rightarrow> vol' ! i = None
         | Some x \<Rightarrow> vol' ! i = Some (if \<bar>(x - m) / s\<bar> > 3 then m + 3 * s * sgn (x - m) else x)) \<and>
        (\<forall>v. vol' ! i = Some v \<longrightarrow> \<bar>(v - m) / s\<bar> \<le> 3))"
proof -
  from nonconstant_std[OF assms(3)] obtain m s where
    ms: "pd_mean vol = Some m" "pd_std vol = Some s" "0 < s" by blast
  let ?g = "\<lambda>v. if extreme_value (Some m) (Some s) v then cap_value (Some m) (Some s) v else v"
  from validate_volatility_data_result[OF assms(1,2)] ms obtain p' df' where
    r: "validate_volatility_data p = Inr (True, p')" "data p' = Some df'"
       "get_floats df' ''realized_volatility'' = Inr (map ?g vol)" by auto
  have row: "(case vol ! i of
           None \<Rightarrow> map ?g vol ! i = None
         | Some x \<Rightarrow> map ?g vol ! i = Some (if \<bar>(x - m) / s\<bar> > 3 then m + 3 * s * sgn (x - m) else x)) \<and>
        (\<forall>v. map ?g vol ! i = Some v \<longrightarrow> \<bar>(v - m) / s\<bar> \<le> 3)" if "i < length vol" for i
  proof (cases "vol ! i")
    case None
    with that show ?thesis by (simp add: capped_row[OF ms(3)])
  next
    case (Some x)
    show ?thesis
    proof (cases "\<bar>(x - m) / s\<bar> > 3")
      case True
      have e: "map ?g vol ! i = Some (m + 3 * s * sgn (x - m))"
        using Some that True by (simp add: capped_row[OF ms(3)])
      have c1: "(case vol ! i of
           None \<Rightarrow> map ?g vol ! i = None
         | Some x \<Rightarrow> map ?g vol ! i = Some (if \<bar>(x - m) / s\<bar> > 3 then m + 3 * s * sgn (x - m) else x))"
        using Some True e by simp
      have c2: "\<forall>v. map ?g vol ! i = Some v \<longrightarrow> \<bar>(v - m) / s\<bar> \<le> 3"
        unfolding e using cap_within[OF ms(3), of m x] by (metis option.inject)
      from c1 c2 show ?thesis by (rule conjI)
    next
      case False
      with Some that show ?thesis by (simp add: capped_row[OF ms(3)])
    qed
  qed
  show ?thesis
    apply (rule exI[of _ p'], rule exI[of _ df'], rule exI[of _ "map ?g vol"])
    apply (rule exI[of _ m], rule exI[of _ s])
    using r ms row by simp
qed


lemma spike_stats: "pd_mean spike = Some 1" "pd_std spike = Some 4"
  by (simp_all add: spike_def pd_mean_def pd_std_def Let_def)

theorem validate_volatility_data_caps_witness:
  "nonconstant spike \<and>
   (\<exists>p' df' vol'. validate_volatility_data spike_pipeline = Inr (True, p') \<and>
      data p' = Some df' \<and> get_floats df' ''realized_volatility'' = Inr vol' \<and>
      vol' ! 0 = Some 0 \<and> vol' ! 15 = Some 13)"
proof -
  have nc: "nonconstant spike"
    unfolding nonconstant_def spike_def by (intro bexI[of _ 0] bexI[of _ 16]) simp_all
  have d: "data spike_pipeline = Some [(''realized_volatility'', map cell_of spike)]"
    by (simp add: spike_pipeline_def)
  have f: "get_floats [(''realized_volatility'', map cell_of spike)] ''realized_volatility''
      = Inr spike"
    using get_floats_set_col[of "''realized_volatility''" spike "[]"]
    by (simp add: set_col_def)
  from validate_volatility_data_caps[OF d f nc] obtain p' df' vol' m s where
    r: "validate_volatility_data spike_pipeline = Inr (True, p')" "data p' = Some df'"
       "get_floats df' ''realized_volatility'' = Inr vol'"
    and ms: "pd_mean spike = Some m" "pd_std spike = Some s"
    and rows: "\<forall>i < length spike.
        (case spike ! i of
           None \<Rightarrow> vol' ! i = None
         | Some x \<Rightarrow> vol' ! i = Some (if \<bar>(x - m) / s\<bar> > 3 then m + 3 * s * sgn (x - m) else x)) \<and>
        (\<forall>v. vol' ! i = Some v \<longrightarrow> \<bar>(v - m) / s\<bar> \<le> 3)"
    by blast
  from ms spike_stats have m: "m = 1" and s: "s = 4" by simp_all
  have l: "length spike = 16" by (simp add: spike_def)
  from rows l have "(case spike ! 0 of
           None \<Rightarrow> vol' ! 0 = None
         | Some x \<Rightarrow> vol' ! 0 = Some (if \<bar>(x - m) / s\<bar> > 3 then m + 3 * s * sgn (x - m) else x))"
    by simp
  then have v0: "vol' ! 0 = Some 0" by (simp add: spike_def m s)
  from rows l have "(case spike ! 15 of
           None \<Rightarrow> vol' ! 15 = None
         | Some x \<Rightarrow> vol' ! 15 = Some (if \<bar>(x - m) / s\<bar> > 3 then m + 3 * s * sgn (x - m) else x))"
    by simp
  then have v15: "vol' ! 15 = Some 13" by (simp add: spike_def m s)
  from nc r v0 v15 show ?thesis by blast
qed

section \<open>Regime duration\<close>

lemma length_shift: "length (shift c) = length c"
  by (cases c) (simp_all add: shift_def)

lemma shift_nth: "i < length c \<Longrightarrow> shift c ! i = (if i = 0 then NaN else c ! (i - 1))"
  by (cases i) (auto simp: shift_def nth_butlast)

lemma length_cumsum: "length (cumsum xs) = length xs"
  by (simp add: cumsum_def)

lemma cumsum_nth: "i < length xs \<Longrightarrow> cumsum xs ! i = sum_list (take (Suc i) xs)"
  by (simp add: cumsum_def)

lemma cumsum_Suc: "Suc i < length xs \<Longrightarrow> cumsum xs ! Suc i = cumsum xs ! i + xs ! Suc i"
  by (simp add: cumsum_nth take_Suc_conv_app_nth[of "Suc i"])

lemma cumsum_mono: "i \<le> j \<Longrightarrow> j < length xs \<Longrightarrow> cumsum xs ! i \<le> cumsum xs ! j"
proof (induction j)
  case 0 then show ?case by simp
next
  case (Suc j)
  show ?case
  proof (cases "i = Suc j")
    case True then show ?thesis by simp
  next
    case False
    with Suc have "cumsum xs ! i \<le> cumsum xs ! j" by simp
    also have "\<dots> \<le> cumsum xs ! Suc j" using Suc.prems by (simp add: cumsum_Suc)
    finally show ?thesis .
  qed
qed

lemma length_cumcount: "length (cumcount ks) = length ks"
  by (simp add: cumcount_def)

lemma cumcount_nth:
  "i < length ks \<Longrightarrow> cumcount ks ! i = length (filter (\<lambda>j. ks ! j = ks ! i) [0..<i])"
  by (simp add: cumcount_def)

lemma cumcount_reset:
  assumes "i < length ks" "\<forall>j < i. ks ! j \<noteq> ks ! i"
  shows "cumcount ks ! i = 0"
  using assms by (simp add: cumcount_nth filter_empty_conv)

lemma cumcount_continue:
  assumes "Suc i < length ks" "ks ! Suc i = ks ! i"
  shows "cumcount ks ! Suc i = cumcount ks ! i + 1"
  using assms by (simp add: cumcount_nth)

lemma length_change_flags: "length (change_flags r) = length r"
  by (simp add: change_flags_def length_shift)

lemma change_flags_nth:
  "i < length r \<Longrightarrow>
   change_flags r ! i = (if i = 0 \<or> cell_ne (r ! i) (r ! (i - 1)) then 1 else 0)"
  by (auto simp: change_flags_def length_shift shift_nth cell_ne_def)

lemma duration_rows:
  assumes "i < length r"
  shows "(cumcount (cumsum (change_flags r)) ! i = 0 \<longleftrightarrow>
            (i = 0 \<or> cell_ne (r ! i) (r ! (i - 1)))) \<and>
         (0 < i \<and> \<not> cell_ne (r ! i) (r ! (i - 1)) \<longrightarrow>
            cumcount (cumsum (change_flags r)) ! i
              = cumcount (cumsum (change_flags r)) ! (i - 1) + 1)"
proof (cases i)
  case 0
  with assms show ?thesis by (simp add: cumcount_nth length_cumsum length_change_flags)
next
  case (Suc k)
  let ?g = "cumsum (change_flags r)"
  have lg: "length ?g = length r" by (simp add: length_cumsum length_change_flags)
  have step: "?g ! Suc k = ?g ! k + (if cell_ne (r ! Suc k) (r ! k) then 1 else 0)"
    using assms Suc by (simp add: cumsum_Suc length_change_flags change_flags_nth)
  show ?thesis
  proof (cases "cell_ne (r ! Suc k) (r ! k)")
    case True
    have "\<forall>j < Suc k. ?g ! j \<noteq> ?g ! Suc k"
    proof (intro allI impI)
      fix j assume "j < Suc k"
      then have "?g ! j \<le> ?g ! k" using assms Suc
        by (intro cumsum_mono) (simp_all add: length_change_flags)
      with step True show "?g ! j \<noteq> ?g ! Suc k" by simp
    qed
    then have "cumcount ?g ! Suc k = 0" using assms Suc lg by (intro cumcount_reset) simp_all
    with True Suc show ?thesis by simp
  next
    case False
    with step have "?g ! Suc k = ?g ! k" by simp
    then have "cumcount ?g ! Suc k = cumcount ?g ! k + 1"
      using assms Suc lg by (intro cumcount_continue) simp_all
    with False Suc show ?thesis by simp
  qed
qed

text \<open>
  C4. The regime duration is 0 at the first row and at exactly the rows whose label
  differs from the label of the row before, and at every other row it is the duration
  of the row before plus 1. Labels are compared as the code compares them: a missing
  label differs from every label, so each row without a label starts a run of its own.
\<close>

theorem calculate_regime_duration_runs:
  assumes "get_col df ''vol_regime'' = Inr regime"
  shows "\<exists>df' dur. calculate_regime_duration df = Inr df' \<and>
     get_col df' ''regime_duration'' = Inr (map (\<lambda>d. Num (real d)) dur) \<and>
     length dur = length regime \<and>
     (\<forall>i < length regime.
        (dur ! i = 0 \<longleftrightarrow> (i = 0 \<or> cell_ne (regime ! i) (regime ! (i - 1)))) \<and>
        (0 < i \<and> \<not> cell_ne (regime ! i) (regime ! (i - 1)) \<longrightarrow> dur ! i = dur ! (i - 1) + 1))"
proof -
  let ?dur = "cumcount (cumsum (change_flags regime))"
  have "calculate_regime_duration df =
      Inr (set_col ''regime_duration'' (map (\<lambda>d. Num (real d)) ?dur)
            (set_col ''regime_group'' (map (\<lambda>g. Num (real g)) (cumsum (change_flags regime))) df))"
    using assms by (simp add: calculate_regime_duration_def Let_def change_flags_def)
  moreover have "length ?dur = length regime"
    by (simp add: length_cumcount length_cumsum length_change_flags)
  ultimately show ?thesis
    using duration_rows[of _ regime] by (auto simp: get_col_set_col simp del: One_nat_def)
qed



lemma list_of_length_4: "length xs = 4 \<Longrightarrow> xs = [xs ! 0, xs ! 1, xs ! 2, xs ! 3]"
  by (auto simp: eval_nat_numeral length_Suc_conv)

theorem calculate_regime_duration_runs_witness:
  "\<exists>df'. calculate_regime_duration duration_example = Inr df' \<and>
     get_col df' ''regime_duration'' = Inr [Num 0, Num 1, Num 0, Num 0]"
proof -
  let ?r = "[Str ''Low'', Str ''Low'', NaN, NaN]"
  have g: "get_col duration_example ''vol_regime'' = Inr ?r"
    by (simp add: duration_example_def get_col_def)
  from calculate_regime_duration_runs[OF g] obtain df' dur where
    r: "calculate_regime_duration duration_example = Inr df'"
       "get_col df' ''regime_duration'' = Inr (map (\<lambda>d. Num (real d)) dur)"
    and l0: "length dur = length ?r"
    and rows0: "\<forall>i < length ?r.
        (dur ! i = 0 \<longleftrightarrow> (i = 0 \<or> cell_ne (?r ! i) (?r ! (i - 1)))) \<and>
        (0 < i \<and> \<not> cell_ne (?r ! i) (?r ! (i - 1)) \<longrightarrow> dur ! i = dur ! (i - 1) + 1)"
    by blast
  from l0 have l: "length dur = 4" by simp
  have rows: "(dur ! i = 0 \<longleftrightarrow> (i = 0 \<or> cell_ne (?r ! i) (?r ! (i - 1)))) \<and>
        (0 < i \<and> \<not> cell_ne (?r ! i) (?r ! (i - 1)) \<longrightarrow> dur ! i = dur ! (i - 1) + 1)"
    if "i < 4" for i
  proof -
    from that have "i < length ?r" by simp
    then show ?thesis by (rule rows0[rule_format])
  qed
  from rows[of 0] have d0: "dur ! 0 = 0" by simp
  from rows[of 1] d0 have d1: "dur ! 1 = 1" by (simp add: cell_ne_def)
  from rows[of 2] have d2: "dur ! 2 = 0" by (simp add: cell_ne_def)
  from rows[of 3] have d3: "dur ! 3 = 0" by (simp add: cell_ne_def)
  have "dur = [dur ! 0, dur ! 1, dur ! 2, dur ! 3]"
    using l by (rule list_of_length_4)
  then have "dur = [0, 1, 0, 0]" using d0 d1 d2 d3 by simp
  with r show ?thesis by auto
qed

section \<open>Transition matrix\<close>

lemma dropna_map_Some: "dropna (map (\<lambda>x. Some (f x)) xs) = map f xs"
  by (induction xs) simp_all

lemma sum_list_real_divide:
  "sum_list (map (\<lambda>c. real c / d) xs) = real (sum_list xs) / d"
  by (induction xs) (simp_all add: add_divide_distrib)

lemma normalised_row:
  assumes "0 < sum_list (row :: nat list)"
  shows "(\<forall>v \<in> set (map (\<lambda>c. if sum_list row = 0 then None
                                 else Some (real c / real (sum_list row))) row). v \<noteq> None)
       \<and> sum_list (dropna (map (\<lambda>c. if sum_list row = 0 then None
                                 else Some (real c / real (sum_list row))) row)) = 1"
proof -
  from assms have ne: "sum_list row \<noteq> 0" by linarith
  have eq: "map (\<lambda>c. if sum_list row = 0 then None else Some (real c / real (sum_list row))) row
      = map (\<lambda>c. Some (real c / real (sum_list row))) row"
    by (simp only: ne if_False)
  have p1: "\<forall>v \<in> set (map (\<lambda>c. Some (real c / real (sum_list row))) row). v \<noteq> None"
    by auto
  have p2: "sum_list (dropna (map (\<lambda>c. Some (real c / real (sum_list row))) row)) = 1"
    using ne by (simp only: dropna_map_Some sum_list_real_divide) simp
  show ?thesis unfolding eq using p1 p2 by (rule conjI)
qed

lemma crosstab_row_positive:
  assumes "r \<in> set (row_index (crosstab a b))"
  shows "0 < sum_list (map (\<lambda>c. count_list (filter (\<lambda>(x, y). x \<noteq> NaN \<and> y \<noteq> NaN) (zip a b)) (r, c))
                        (col_index (crosstab a b)))"
proof -
  let ?ps = "filter (\<lambda>(x, y). x \<noteq> NaN \<and> y \<noteq> NaN) (zip a b)"
  from assms obtain c where c: "(r, c) \<in> set ?ps"
    by (auto simp: crosstab_def Let_def)
  then have "c \<in> set (col_index (crosstab a b))"
    by (force simp: crosstab_def Let_def)
  then have "count_list ?ps (r, c) \<le> sum_list (map (\<lambda>c. count_list ?ps (r, c)) (col_index (crosstab a b)))"
    by (intro member_le_sum_list) auto
  moreover have "count_list ?ps (r, c) \<noteq> 0" using c by (simp only: count_list_0_iff) simp
  ultimately show ?thesis by linarith
qed

lemma transition_probs_entries:
  "entries (transition_probs regime) =
     map (\<lambda>r. let row = map (\<lambda>c. count_list (filter (\<lambda>(x, y). x \<noteq> NaN \<and> y \<noteq> NaN)
                                       (zip (shift regime) regime)) (r, c))
                          (col_index (crosstab (shift regime) regime))
               in map (\<lambda>c. if sum_list row = 0 then None
                            else Some (real c / real (sum_list row))) row)
         (row_index (crosstab (shift regime) regime))"
  by (simp add: transition_probs_def crosstab_def Let_def comp_def)

lemma transition_probs_row_index:
  "row_index (transition_probs regime) = row_index (crosstab (shift regime) regime)"
  by (simp add: transition_probs_def Let_def)

lemma previous_label_in_rows:
  assumes "Suc i < length regime" "regime ! i \<noteq> NaN" "regime ! Suc i \<noteq> NaN"
  shows "regime ! i \<in> set (row_index (transition_probs regime))"
proof -
  have "shift regime ! Suc i = regime ! i" using assms(1) by (simp add: shift_nth)
  then have "(regime ! i, regime ! Suc i) \<in> set (zip (shift regime) regime)"
    using assms(1) by (auto simp: set_zip length_shift intro!: exI[of _ "Suc i"])
  with assms(2,3) have "(regime ! i, regime ! Suc i)
      \<in> set (filter (\<lambda>(x, y). x \<noteq> NaN \<and> y \<noteq> NaN) (zip (shift regime) regime))"
    by simp
  then show ?thesis
    by (force simp: transition_probs_row_index crosstab_def Let_def)
qed

text \<open>
  C5. Every row of the transition matrix consists of numbers that sum to exactly 1
  (in exact arithmetic), and the matrix has a row for every label that occurs as the
  previous label of a labelled row; in a fully labelled table with at least two rows
  these are the labels of all rows but the last.
\<close>

theorem transition_probs_rows_sum_to_one:
  "length (entries (transition_probs regime)) = length (row_index (transition_probs regime)) \<and>
   (\<forall>k < length (row_index (transition_probs regime)).
       (\<forall>v \<in> set (entries (transition_probs regime) ! k). v \<noteq> None) \<and>
       sum_list (dropna (entries (transition_probs regime) ! k)) = 1) \<and>
   (\<forall>i. Suc i < length regime \<and> regime ! i \<noteq> NaN \<and> regime ! Suc i \<noteq> NaN \<longrightarrow>
       regime ! i \<in> set (row_index (transition_probs regime)))"
proof -
  have a: "length (entries (transition_probs regime)) = length (row_index (transition_probs regime))"
    by (simp add: transition_probs_entries transition_probs_row_index)
  have b: "(\<forall>v \<in> set (entries (transition_probs regime) ! k). v \<noteq> None) \<and>
       sum_list (dropna (entries (transition_probs regime) ! k)) = 1"
    if k: "k < length (row_index (transition_probs regime))" for k
  proof -
  let ?rs = "row_index (crosstab (shift regime) regime)"
  let ?row = "map (\<lambda>c. count_list (filter (\<lambda>(x, y). x \<noteq> NaN \<and> y \<noteq> NaN)
                                       (zip (shift regime) regime)) (?rs ! k, c))
                          (col_index (crosstab (shift regime) regime))"
  from k have "?rs ! k \<in> set ?rs" by (simp add: transition_probs_row_index)
  then have pos: "0 < sum_list ?row" by (rule crosstab_row_positive)
  have "entries (transition_probs regime) ! k =
      map (\<lambda>c. if sum_list ?row = 0 then None else Some (real c / real (sum_list ?row))) ?row"
    using k by (simp add: transition_probs_entries transition_probs_row_index Let_def)
  with normalised_row[OF pos] show ?thesis by simp
  qed
  have c: "regime ! i \<in> set (row_index (transition_probs regime))"
    if "Suc i < length regime \<and> regime ! i \<noteq> NaN \<and> regime ! Suc i \<noteq> NaN" for i
    using that by (simp add: previous_label_in_rows)
  from a b c show ?thesis by blast
qed

lemma transition_example_matrix:
  "transition_probs transition_example =
     \<lparr>row_index = [Str ''Low''], col_index = [Str ''Low'', Str ''High''],
      entries = [[Some (1/2), Some (1/2)]]\<rparr>"
  by (simp add: transition_example_def transition_probs_def crosstab_def shift_def Let_def)

theorem transition_probs_rows_sum_to_one_witness:
  "Str ''Low'' \<in> set (row_index (transition_probs transition_example)) \<and>
   entries (transition_probs transition_example) ! 0 = [Some (1/2), Some (1/2)] \<and>
   sum_list (dropna (entries (transition_probs transition_example) ! 0)) = 1"
proof -
  let ?tp = "transition_probs transition_example"
  from transition_probs_rows_sum_to_one[of transition_example]
  have rows: "\<forall>k < length (row_index ?tp).
       (\<forall>v \<in> set (entries ?tp ! k). v \<noteq> None) \<and> sum_list (dropna (entries ?tp ! k)) = 1"
    and prev: "\<forall>i. Suc i < length transition_example \<and> transition_example ! i \<noteq> NaN \<and>
        transition_example ! Suc i \<noteq> NaN \<longrightarrow> transition_example ! i \<in> set (row_index ?tp)"
    by blast+
  have "0 < length (row_index ?tp)" by (simp add: transition_example_matrix)
  with rows have s: "sum_list (dropna (entries ?tp ! 0)) = 1" by blast
  have "Suc 0 < length transition_example \<and> transition_example ! 0 \<noteq> NaN \<and>
        transition_example ! Suc 0 \<noteq> NaN"
    by (simp add: transition_example_def)
  with prev have "transition_example ! 0 \<in> set (row_index ?tp)" by blast
  then have m: "Str ''Low'' \<in> set (row_index ?tp)" by (simp add: transition_example_def)
  have e: "entries ?tp ! 0 = [Some (1/2), Some (1/2)]" by (simp add: transition_example_matrix)
  from m e s show ?thesis by blast
qed

section \<open>create_features: frame and copy\<close>

lemma identify_regimes_frame:
  assumes "identify_regimes quantile self df col = Inr df'" "name \<noteq> ''vol_regime''"
  shows "get_col df' name = get_col df name"
  using assms
  by (auto simp: identify_regimes_def get_col_set_col split: sum.splits)

lemma calculate_regime_duration_frame:
  assumes "calculate_regime_duration df = Inr df'"
    "name \<noteq> ''regime_group''" "name \<noteq> ''regime_duration''"
  shows "get_col df' name = get_col df name"
  using assms
  by (auto simp: calculate_regime_duration_def Let_def get_col_set_col split: sum.splits)

lemma add_transition_probs_frame:
  assumes "add_transition_probs probs ls df = Inr df'"
    "name \<notin> (\<lambda>r. ''transition_prob_'' @ r) ` set ls"
  shows "get_col df' name = get_col df name"
  using assms
proof (induction ls arbitrary: df)
  case Nil
  then show ?case by simp
next
  case (Cons r rest)
  from Cons.prems(1) obtain lookup c where
    rec: "add_transition_probs probs rest
            (set_col (''transition_prob_'' @ r) (map_series lookup c) df) = Inr df'"
    by (auto split: sum.splits)
  from Cons.prems(2) have "name \<noteq> ''transition_prob_'' @ r"
    and "name \<notin> (\<lambda>r. ''transition_prob_'' @ r) ` set rest" by auto
  with Cons.IH[OF rec] show ?case by (simp add: get_col_set_col)
qed

lemma calculate_regime_transitions_frame:
  assumes "calculate_regime_transitions self df = Inr df'"
    "name \<notin> (\<lambda>r. ''transition_prob_'' @ r) ` set (regime_labels self)"
  shows "get_col df' name = get_col df name"
proof -
  from assms(1) obtain regime where
    "add_transition_probs (transition_probs regime) (regime_labels self) df = Inr df'"
    unfolding calculate_regime_transitions_def by (cases "get_col df ''vol_regime''") auto
  then show ?thesis using assms(2) by (rule add_transition_probs_frame)
qed

lemma calculate_regime_boundary_distance_frame:
  assumes "calculate_regime_boundary_distance quantile self df col = Inr df'"
    "name \<noteq> ''distance_to_lower_boundary''" "name \<noteq> ''distance_to_upper_boundary''"
  shows "get_col df' name = get_col df name"
  using assms
  by (auto simp: calculate_regime_boundary_distance_def Let_def get_col_set_col
      split: sum.splits if_splits)

lemma preserved_copy:
  assumes "\<forall>b. frames st b \<noteq> None \<longrightarrow> b < next_ref st" "frames st a = Some t"
  shows "preserved a t D (copy_frame st a)"
proof -
  from assms have "a < next_ref st" by auto
  with assms(2) show ?thesis by (simp add: preserved_def copy_frame_def)
qed

lemma preserved_step:
  assumes p: "preserved a t D rs"
    and f: "\<And>df df' name. f df = Inr df' \<Longrightarrow> name \<notin> D \<Longrightarrow> get_col df' name = get_col df name"
  shows "preserved a t D (and_then rs (in_place f))"
proof (cases rs)
  case (Pair r st)
  show ?thesis
  proof (cases r)
    case (Inl e)
    with Pair p show ?thesis by (simp add: and_then_def preserved_def)
  next
    case (Inr b)
    with Pair p obtain t' where b: "b \<noteq> a" "frames st b = Some t'" "frames st a = Some t"
      and ag: "\<forall>name. name \<notin> D \<longrightarrow> get_col t' name = get_col t name"
      by (auto simp: preserved_def)
    show ?thesis
    proof (cases "f t'")
      case (Inl e)
      with Pair Inr b show ?thesis by (simp add: and_then_def in_place_def preserved_def)
    next
      case r: (Inr t'')
      have "\<forall>name. name \<notin> D \<longrightarrow> get_col t'' name = get_col t name"
        using f[OF r] ag by simp
      with Pair Inr b r show ?thesis by (simp add: and_then_def in_place_def preserved_def)
    qed
  qed
qed

lemma create_features_preserved:
  assumes "\<forall>b. frames st b \<noteq> None \<longrightarrow> b < next_ref st" "frames st a = Some t"
  shows "preserved a t (set (derived_columns self)) (create_features quantile self st a)"
  unfolding create_features_def
  apply (intro preserved_step preserved_copy[OF assms])
     apply (erule identify_regimes_frame, simp add: derived_columns_def)
    apply (erule calculate_regime_duration_frame; simp add: derived_columns_def)
   apply (erule calculate_regime_transitions_frame, simp add: derived_columns_def)
  apply (erule calculate_regime_boundary_distance_frame; simp add: derived_columns_def)
  done

theorem create_features_overwrites_counterexample:
  "fst (create_features linear_quantile (init_features 3) relabel_store 0) = Inr 1 \<and>
   get_col relabel_example ''vol_regime''
     = Inr [Str ''Calm'', Str ''Calm'', Str ''Calm'', Str ''Calm'', Str ''Calm'', Str ''Calm''] \<and>
   get_col (the (frames (snd (create_features linear_quantile (init_features 3) relabel_store 0)) 1))
       ''vol_regime''
     = Inr [Str ''Low'', Str ''Low'', Str ''Medium'', Str ''Medium'', Str ''High'', Str ''High'']"
  by code_simp

text \<open>
  C10 (amended). create_features leaves the frame it was given unchanged, and the frame it
  returns is a different object that has the same rows in every column whose name is
  not one of those it writes (vol_regime, regime_group, regime_duration,
  transition_prob_<label>, distance_to_lower_boundary, distance_to_upper_boundary); it
  adds no other column. A column of the input that bears one of these names is
  overwritten in the result. This holds whatever edges the quantile routine computes.
\<close>

theorem create_features_frame:
  assumes "\<forall>b. frames st b \<noteq> None \<longrightarrow> b < next_ref st"
    and "frames st a = Some t"
    and "create_features quantile self st a = (r, st')"
  shows "frames st' a = Some t \<and>
     (\<forall>b. r = Inr b \<longrightarrow>
        b \<noteq> a \<and> (\<exists>t'. frames st' b = Some t' \<and>
           (\<forall>name. name \<notin> set (derived_columns self) \<longrightarrow> get_col t' name = get_col t name)))"
  using create_features_preserved[OF assms(1,2), where self = self and quantile = quantile]
    assms(3)
  by (simp add: preserved_def)

theorem create_features_frame_witness:
  "fst (create_features linear_quantile (init_features 3) relabel_store 0) = Inr 1 \<and>
   frames (snd (create_features linear_quantile (init_features 3) relabel_store 0)) 0
     = Some relabel_example \<and>
   get_col (the (frames (snd (create_features linear_quantile (init_features 3) relabel_store 0)) 1))
       ''realized_volatility''
     = Inr [Num 1, Num 2, Num 3, Num 4, Num 5, Num 6]"
proof -
  let ?res = "create_features linear_quantile (init_features 3) relabel_store 0"
  have wf: "\<forall>b. frames relabel_store b \<noteq> None \<longrightarrow> b < next_ref relabel_store"
    by (simp add: relabel_store_def)
  have fr: "frames relabel_store 0 = Some relabel_example" by (simp add: relabel_store_def)
  have res: "?res = (fst ?res, snd ?res)" by simp
  have r1: "fst ?res = Inr 1" by code_simp
  from create_features_frame[OF wf fr res] r1
  obtain t' where a: "frames (snd ?res) 0 = Some relabel_example"
    and b: "frames (snd ?res) 1 = Some t'"
    and c: "\<forall>name. name \<notin> set (derived_columns (init_features 3)) \<longrightarrow>
               get_col t' name = get_col relabel_example name"
    by blast
  have "''realized_volatility'' \<notin> set (derived_columns (init_features 3))"
    by (simp add: derived_columns_def init_features_def)
  with c have "get_col t' ''realized_volatility'' = get_col relabel_example ''realized_volatility''"
    by blast
  also have "\<dots> = Inr [Num 1, Num 2, Num 3, Num 4, Num 5, Num 6]"
    by (simp add: relabel_example_def get_col_def)
  finally show ?thesis using a b r1 by simp
qed

section \<open>Pipeline control flow\<close>

lemma ebind_Inr [simp]: "ebind (Inr x) f = f x"
  by (simp add: ebind_def)

lemma ebind_Inl [simp]: "ebind (Inl e) f = Inl e"
  by (simp add: ebind_def)

lemma missing_columns_set:
  "set (filter (\<lambda>c. c \<notin> set (map fst df)) required_columns)
     = set required_columns - set (map fst df)"
  by auto

text \<open>
  C6. When the input file is readable and its table lacks at least one of the eight
  required columns, run_pipeline returns False, the file system is as it was (no output
  is written), and the diagnostics gained one entry naming the missing columns.
\<close>

theorem run_pipeline_missing_columns:
  assumes "files fs (input_path p) = Some df"
    and "\<exists>c \<in> set required_columns. c \<notin> set (map fst df)"
  shows "\<exists>p'. run_pipeline pd fs p = (False, p', fs) \<and>
     validation_errors p'
       = validation_errors p @ [Missing_required_columns (set required_columns - set (map fst df))]"
proof -
  let ?p1 = "p\<lparr>data := Some df\<rparr>"
  have l: "load_data fs p = Inr ?p1" using assms(1) by (simp add: load_data_def)
  from assms(2) have ne: "filter (\<lambda>c. c \<notin> set (map fst df)) required_columns \<noteq> []"
    by (simp add: filter_empty_conv)
  have v: "validate_data_structure pd ?p1 =
      Inr (False, ?p1\<lparr>validation_errors := validation_errors ?p1 @
             [Missing_required_columns (set required_columns - set (map fst df))]\<rparr>)"
    unfolding validate_data_structure_def Let_def missing_columns_set[symmetric]
    using ne by (simp add: the_data_def)
  show ?thesis
    by (simp add: run_pipeline_def l v)
qed

theorem run_pipeline_missing_columns_witness:
  "fst (run_pipeline plain_pandas short_files (new_pipeline ''raw.csv'' ''processed.csv'')) = False \<and>
   snd (snd (run_pipeline plain_pandas short_files (new_pipeline ''raw.csv'' ''processed.csv'')))
     = short_files \<and>
   files short_files ''processed.csv'' = None \<and>
   validation_errors
     (fst (snd (run_pipeline plain_pandas short_files (new_pipeline ''raw.csv'' ''processed.csv''))))
     = [Missing_required_columns {''High'', ''Low'', ''Close'', ''Volume'', ''log_returns'',
                                  ''realized_volatility''}]"
proof -
  let ?p = "new_pipeline ''raw.csv'' ''processed.csv''"
  have f: "files short_files (input_path ?p) = Some short_table"
    by (simp add: short_files_def new_pipeline_def)
  have m: "\<exists>c \<in> set required_columns. c \<notin> set (map fst short_table)"
    by (simp add: required_columns_def short_table_def)
  from run_pipeline_missing_columns[OF f m, of plain_pandas] obtain p' where
    r: "run_pipeline plain_pandas short_files ?p = (False, p', short_files)"
    and e: "validation_errors p' = validation_errors ?p @
       [Missing_required_columns (set required_columns - set (map fst short_table))]"
    by blast
  have s: "set required_columns - set (map fst short_table)
      = {''High'', ''Low'', ''Close'', ''Volume'', ''log_returns'', ''realized_volatility''}"
    by (auto simp: required_columns_def short_table_def)
  have n: "files short_files ''processed.csv'' = None" by (simp add: short_files_def)
  from r e s n show ?thesis by (simp add: new_pipeline_def)
qed

section \<open>Columns through the pipeline stages\<close>

lemma get_col_map_columns:
  "get_col (map_columns f df) name = (case get_col df name of Inl e \<Rightarrow> Inl e | Inr c \<Rightarrow> Inr (f c))"
  by (simp add: get_col_def map_columns_def map_of_map split: option.splits)

lemma get_col_drop_columns:
  "get_col (drop_columns names df) name
     = (if name \<in> set names then Inl (KeyError name) else get_col df name)"
  unfolding drop_columns_def by (induction df) (auto simp: get_col_def)

lemma set_ffill_from: "set (ffill_from prev c) \<subseteq> insert prev (set c)"
  by (induction c arbitrary: prev) auto

lemma set_ffill: "set (ffill c) \<subseteq> insert NaN (set c)"
  unfolding ffill_def by (rule set_ffill_from)

lemma set_bfill: "set (bfill c) \<subseteq> insert NaN (set c)"
  unfolding bfill_def using set_ffill[of "rev c"] by simp

lemma set_keep_rows: "set (keep_rows keep c) \<subseteq> set c"
  unfolding keep_rows_def by (auto dest: set_zip_leftD)

lemma set_take_rows: "set (take_rows order c) \<subseteq> insert NaN (set c)"
  unfolding take_rows_def by auto

lemma set_clean_col: "set (clean_col dates c) \<subseteq> insert NaN (set c)"
proof -
  have "set (clean_col dates c) \<subseteq> set (bfill (ffill (take_rows (sort_order dates) c)))"
    unfolding clean_col_def by (rule set_keep_rows)
  also have "\<dots> \<subseteq> insert NaN (set (ffill (take_rows (sort_order dates) c)))"
    by (rule set_bfill)
  also have "\<dots> \<subseteq> insert NaN (set (take_rows (sort_order dates) c))"
    using set_ffill by auto
  also have "\<dots> \<subseteq> insert NaN (set c)"
    using set_take_rows by auto
  finally show ?thesis .
qed

lemma is_float_clean_col:
  assumes "list_all is_float c"
  shows "list_all is_float (clean_col dates c)"
proof -
  have "is_float NaN" by (simp add: is_float_def)
  with assms set_clean_col[of dates c] show ?thesis
    by (auto simp: list_all_iff)
qed

lemma convert_numeric_cols:
  assumes "convert_numeric pd cols df = Inr df'" "distinct cols"
  shows "get_col df' name =
     (if name \<in> set cols
      then (case get_col df name of Inl e \<Rightarrow> Inl e | Inr c \<Rightarrow> Inr (map (to_numeric_cell pd) c))
      else get_col df name)"
  using assms
proof (induction cols arbitrary: df)
  case Nil
  then show ?case by simp
next
  case (Cons a cols)
  from Cons.prems(1) obtain c where c: "get_col df a = Inr c"
    and rec: "convert_numeric pd cols (set_col a (map (to_numeric_cell pd) c) df) = Inr df'"
    by (auto split: sum.splits)
  from Cons.prems(2) have d: "distinct cols" "a \<notin> set cols" by simp_all
  from Cons.IH[OF rec d(1)] c d(2) show ?case
    by (auto simp: get_col_set_col)
qed

lemma is_float_to_numeric: "is_float (to_numeric_cell pd c)"
  by (cases c) (auto simp: to_numeric_cell_def is_float_def split: option.splits)

lemma validate_data_structure_True:
  assumes "validate_data_structure pd p = Inr (True, p')" "data p = Some df"
  shows "\<exists>dates ds df'.
     get_col df ''Date'' = Inr dates \<and> those (map (to_datetime_cell pd) dates) = Some ds \<and>
     convert_numeric pd numeric_columns (set_col ''Date'' ds df) = Inr df' \<and>
     p' = p\<lparr>data := Some df'\<rparr>"
proof -
  from assms have m: "filter (\<lambda>c. c \<notin> set (map fst df)) required_columns = []"
    by (auto simp: validate_data_structure_def the_data_def Let_def split: if_splits)
  with assms obtain df' where
    c: "ebind (get_col df ''Date'') (\<lambda>dates.
                       case those (map (to_datetime_cell pd) dates) of
                         None \<Rightarrow> Inl ValueError
                       | Some ds \<Rightarrow> convert_numeric pd numeric_columns (set_col ''Date'' ds df))
        = Inr df'" and p': "p' = p\<lparr>data := Some df'\<rparr>"
    by (auto simp: validate_data_structure_def the_data_def Let_def split: sum.splits)
  from c obtain dates where d: "get_col df ''Date'' = Inr dates"
    by (cases "get_col df ''Date''") auto
  with c obtain ds where ds: "those (map (to_datetime_cell pd) dates) = Some ds"
    by (cases "those (map (to_datetime_cell pd) dates)") auto
  with c d have "convert_numeric pd numeric_columns (set_col ''Date'' ds df) = Inr df'" by simp
  with d ds p' show ?thesis by blast
qed

lemma validate_data_structure_cols:
  assumes "validate_data_structure pd p = Inr (True, p')" "data p = Some df"
  shows "\<exists>df'. data p' = Some df' \<and> validation_errors p' = validation_errors p \<and>
     (\<forall>name \<in> set numeric_columns. \<forall>c. get_col df name = Inr c \<longrightarrow>
         get_col df' name = Inr (map (to_numeric_cell pd) c)) \<and>
     (\<forall>dates. get_col df ''Date'' = Inr dates \<longrightarrow>
         (\<exists>ds. those (map (to_datetime_cell pd) dates) = Some ds \<and> get_col df' ''Date'' = Inr ds)) \<and>
     (\<forall>name. name \<notin> set numeric_columns \<and> name \<noteq> ''Date'' \<longrightarrow> get_col df' name = get_col df name)"
proof -
  from validate_data_structure_True[OF assms] obtain dates ds df' where
    d: "get_col df ''Date'' = Inr dates" and ds: "those (map (to_datetime_cell pd) dates) = Some ds"
    and c: "convert_numeric pd numeric_columns (set_col ''Date'' ds df) = Inr df'"
    and p': "p' = p\<lparr>data := Some df'\<rparr>" by blast
  have dist: "distinct numeric_columns" by (simp add: numeric_columns_def)
  note cc = convert_numeric_cols[OF c dist]
  have nd: "''Date'' \<notin> set numeric_columns" by (simp add: numeric_columns_def)
  have 1: "\<forall>name \<in> set numeric_columns. \<forall>c. get_col df name = Inr c \<longrightarrow>
         get_col df' name = Inr (map (to_numeric_cell pd) c)"
    using cc nd by (auto simp: get_col_set_col)
  have 2: "\<forall>dates. get_col df ''Date'' = Inr dates \<longrightarrow>
         (\<exists>ds. those (map (to_datetime_cell pd) dates) = Some ds \<and> get_col df' ''Date'' = Inr ds)"
    using cc[of "''Date''"] nd d ds by (simp add: get_col_set_col)
  have 3: "\<forall>name. name \<notin> set numeric_columns \<and> name \<noteq> ''Date'' \<longrightarrow> get_col df' name = get_col df name"
    using cc by (simp add: get_col_set_col)
  from p' 1 2 3 show ?thesis by simp
qed

lemma clean_data_cols:
  assumes "data p = Some df" "get_col df ''Date'' = Inr dates"
  shows "\<exists>df'. clean_data p = Inr (p\<lparr>data := Some df'\<rparr>) \<and>
     (\<forall>name. get_col df' name =
        (if name \<in> set columns_to_drop then Inl (KeyError name)
         else case get_col df name of Inl e \<Rightarrow> Inl e | Inr c \<Rightarrow> Inr (clean_col dates c)))"
proof -
  let ?df1 = "drop_columns columns_to_drop df"
  let ?df2 = "map_columns (take_rows (sort_order dates)) ?df1"
  let ?df3 = "map_columns (\<lambda>c. bfill (ffill c)) ?df2"
  let ?d3 = "bfill (ffill (take_rows (sort_order dates) dates))"
  let ?df4 = "map_columns (keep_rows (first_occurrences ?d3)) ?df3"
  have d1: "get_col ?df1 ''Date'' = Inr dates"
    using assms(2) by (simp add: get_col_drop_columns columns_to_drop_def)
  have d3: "get_col ?df3 ''Date'' = Inr ?d3"
    using d1 by (simp add: get_col_map_columns)
  have c: "clean_data p = Inr (p\<lparr>data := Some ?df4\<rparr>)"
    unfolding clean_data_def Let_def using assms(1) d1 d3 by (simp add: the_data_def)
  have "get_col ?df4 name =
        (if name \<in> set columns_to_drop then Inl (KeyError name)
         else case get_col df name of Inl e \<Rightarrow> Inl e | Inr c \<Rightarrow> Inr (clean_col dates c))" for name
    by (simp add: get_col_map_columns get_col_drop_columns clean_col_def split: sum.splits)
  with c show ?thesis by blast
qed

section \<open>What the validators return\<close>

lemma validate_price_data_data:
  assumes "validate_price_data p = Inr (ok, p')"
  shows "data p' = data p"
  using assms
  by (auto simp: validate_price_data_def ebind_def Let_def split: sum.splits)

lemma validate_volume_data_data:
  assumes "validate_volume_data p = Inr (ok, p')"
  shows "data p' = data p"
  using assms
  by (auto simp: validate_volume_data_def ebind_def Let_def split: sum.splits)

lemma validate_volatility_data_True:
  assumes "validate_volatility_data p = Inr (ok, p')"
  shows "ok"
  using assms
  by (auto simp: validate_volatility_data_def Let_def split: option.splits sum.splits)

lemma required_present:
  assumes "validate_data_structure pd p = Inr (True, p')" "data p = Some df"
    "name \<in> set required_columns"
  shows "\<exists>c. get_col df name = Inr c"
proof -
  from assms(1,2) have "filter (\<lambda>c. c \<notin> set (map fst df)) required_columns = []"
    by (auto simp: validate_data_structure_def the_data_def Let_def split: if_splits)
  with assms(3) have "name \<in> set (map fst df)" by (auto simp: filter_empty_conv)
  then have "map_of df name \<noteq> None" by (simp add: map_of_eq_None_iff)
  then show ?thesis by (auto simp: get_col_def)
qed

lemma load_data_Inr:
  assumes "load_data fs p = Inr p1"
  shows "\<exists>df. files fs (input_path p) = Some df \<and> p1 = p\<lparr>data := Some df\<rparr>"
  using assms by (auto simp: load_data_def split: option.splits)

lemma cleaned_numeric_column:
  assumes l: "load_data fs p = Inr p1"
    and v: "validate_data_structure pd p1 = Inr (True, p2)"
    and c: "clean_data p2 = Inr p3"
    and n: "name \<in> set numeric_columns"
  shows "\<exists>df dates ds c df3.
     files fs (input_path p) = Some df \<and> get_col df ''Date'' = Inr dates \<and>
     those (map (to_datetime_cell pd) dates) = Some ds \<and> get_col df name = Inr c \<and>
     data p3 = Some df3 \<and> validation_errors p3 = validation_errors p \<and>
     get_col df3 ''Date'' = Inr (clean_col ds ds) \<and>
     get_col df3 name = Inr (clean_col ds (map (to_numeric_cell pd) c)) \<and>
     get_floats df3 name = Inr (map num_of (clean_col ds (map (to_numeric_cell pd) c)))"
proof -
  from load_data_Inr[OF l] obtain df where
    f: "files fs (input_path p) = Some df" and p1: "p1 = p\<lparr>data := Some df\<rparr>" by blast
  then have d1: "data p1 = Some df" by simp
  have nr: "name \<in> set required_columns" "''Date'' \<in> set required_columns"
    using n by (auto simp: numeric_columns_def required_columns_def)
  from required_present[OF v d1 nr(1)] obtain col where col: "get_col df name = Inr col" by blast
  from required_present[OF v d1 nr(2)] obtain dates where dates: "get_col df ''Date'' = Inr dates"
    by blast
  from validate_data_structure_cols[OF v d1] obtain df2 where
    d2: "data p2 = Some df2" and e2: "validation_errors p2 = validation_errors p1"
    and num: "\<forall>name \<in> set numeric_columns. \<forall>c. get_col df name = Inr c \<longrightarrow>
         get_col df2 name = Inr (map (to_numeric_cell pd) c)"
    and dt: "\<forall>dates. get_col df ''Date'' = Inr dates \<longrightarrow>
         (\<exists>ds. those (map (to_datetime_cell pd) dates) = Some ds \<and> get_col df2 ''Date'' = Inr ds)"
    by blast
  from dt dates obtain ds where ds: "those (map (to_datetime_cell pd) dates) = Some ds"
    and g2d: "get_col df2 ''Date'' = Inr ds" by blast
  from num n col have g2: "get_col df2 name = Inr (map (to_numeric_cell pd) col)" by blast
  from clean_data_cols[OF d2 g2d] c obtain df3 where
    p3: "p3 = p2\<lparr>data := Some df3\<rparr>"
    and cols: "\<forall>name. get_col df3 name =
        (if name \<in> set columns_to_drop then Inl (KeyError name)
         else case get_col df2 name of Inl e \<Rightarrow> Inl e | Inr c \<Rightarrow> Inr (clean_col ds c))"
    by auto
  have nd: "name \<notin> set columns_to_drop" "''Date'' \<notin> set columns_to_drop"
    using n by (auto simp: numeric_columns_def columns_to_drop_def)
  from cols nd g2 g2d have g3: "get_col df3 name = Inr (clean_col ds (map (to_numeric_cell pd) col))"
    and g3d: "get_col df3 ''Date'' = Inr (clean_col ds ds)" by simp_all
  have "list_all is_float (map (to_numeric_cell pd) col)"
    by (simp add: list_all_iff is_float_to_numeric)
  then have "list_all is_float (clean_col ds (map (to_numeric_cell pd) col))"
    by (rule is_float_clean_col)
  with g3 have gf: "get_floats df3 name = Inr (map num_of (clean_col ds (map (to_numeric_cell pd) col)))"
    by (simp add: get_floats_def)
  from p3 e2 p1 have e3: "validation_errors p3 = validation_errors p" and d3: "data p3 = Some df3"
    by simp_all
  from f dates ds col d3 e3 g3d g3 gf show ?thesis by blast
qed

lemma volatility_step_returns:
  assumes "load_data fs p = Inr p1" "validate_data_structure pd p1 = Inr (True, p2)"
    "clean_data p2 = Inr p3" "validate_price_data p3 = Inr (True, p4)"
    "validate_volume_data p4 = Inr (True, p5)"
  shows "\<exists>p6. validate_volatility_data p5 = Inr (True, p6)"
proof -
  have n: "''realized_volatility'' \<in> set numeric_columns" by (simp add: numeric_columns_def)
  from cleaned_numeric_column[OF assms(1,2,3) n] obtain df3 vol where
    d3: "data p3 = Some df3" and g: "get_floats df3 ''realized_volatility'' = Inr vol" by blast
  from validate_price_data_data[OF assms(4)] validate_volume_data_data[OF assms(5)] d3
  have "data p5 = Some df3" by simp
  from validate_volatility_data_result[OF this g] show ?thesis by blast
qed

section \<open>Required columns in the persisted output\<close>

lemma validate_volatility_data_cols:
  assumes "validate_volatility_data p = Inr (ok, p')" "data p = Some df"
  shows "\<exists>df' vol. data p' = Some df' \<and> get_floats df ''realized_volatility'' = Inr vol \<and>
     get_floats df' ''realized_volatility''
       = Inr (map (\<lambda>v. if extreme_value (pd_mean vol) (pd_std vol) v
                        then cap_value (pd_mean vol) (pd_std vol) v else v) vol) \<and>
     (\<forall>name. name \<noteq> ''realized_volatility'' \<longrightarrow> get_col df' name = get_col df name)"
proof -
  from assms obtain vol where g: "get_floats df ''realized_volatility'' = Inr vol"
    by (auto simp: validate_volatility_data_def split: sum.splits)
  from validate_volatility_data_result[OF assms(2) g] assms(1) obtain df' where
    d: "data p' = Some df'"
    and f: "get_floats df' ''realized_volatility''
       = Inr (map (\<lambda>v. if extreme_value (pd_mean vol) (pd_std vol) v
                        then cap_value (pd_mean vol) (pd_std vol) v else v) vol)"
    by auto
  from assms g d have "df' = df \<or> (\<exists>c. df' = set_col ''realized_volatility'' c df)"
    by (auto simp: validate_volatility_data_def Let_def split: if_splits)
  then have "\<forall>name. name \<noteq> ''realized_volatility'' \<longrightarrow> get_col df' name = get_col df name"
    by (auto simp: get_col_set_col)
  with d g f show ?thesis by blast
qed










lemma ffill_from_no_nan: "prev \<noteq> NaN \<Longrightarrow> NaN \<notin> set (ffill_from prev c)"
  by (induction c arbitrary: prev) auto

lemma ffill_from_clean_head:
  assumes "NaN \<notin> set r" "r \<noteq> []"
  shows "NaN \<notin> set (ffill_from prev (r @ s))"
proof -
  from assms obtain y ys where r: "r = y # ys" and y: "y \<noteq> NaN" by (cases r) auto
  then have "ffill_from prev (r @ s) = y # ffill_from y (ys @ s)" by simp
  with y ffill_from_no_nan[OF y, of "ys @ s"] show ?thesis by simp
qed

lemma ffill_lead:
  "ffill_from NaN c
     = takeWhile (\<lambda>x. x = NaN) c @ ffill_from NaN (dropWhile (\<lambda>x. x = NaN) c)"
  by (induction c) auto

lemma ffill_tail_clean: "NaN \<notin> set (ffill_from NaN (dropWhile (\<lambda>x. x = NaN) c))"
proof (cases "dropWhile (\<lambda>x. x = NaN) c")
  case Nil
  show ?thesis unfolding Nil by simp
next
  case (Cons y ys)
  then have "y \<noteq> NaN" using hd_dropWhile[of "\<lambda>x. x = NaN" c] by auto
  with Cons ffill_from_no_nan[of y ys] show ?thesis by simp
qed

lemma no_nan_bfill_ffill:
  assumes "\<exists>x \<in> set c. x \<noteq> NaN"
  shows "NaN \<notin> set (bfill (ffill c))"
proof -
  let ?lead = "takeWhile (\<lambda>x. x = NaN) c"
  let ?r = "ffill_from NaN (dropWhile (\<lambda>x. x = NaN) c)"
  from assms have "dropWhile (\<lambda>x. x = NaN) c \<noteq> []" by (auto simp: dropWhile_eq_Nil_conv)
  then have rne: "?r \<noteq> []" by (cases "dropWhile (\<lambda>x. x = NaN) c") auto
  have rc: "NaN \<notin> set ?r" by (rule ffill_tail_clean)
  have "ffill c = ?lead @ ?r" unfolding ffill_def by (rule ffill_lead)
  then have "bfill (ffill c) = rev (ffill_from NaN (rev ?r @ rev ?lead))"
    by (simp add: bfill_def ffill_def)
  moreover have "NaN \<notin> set (ffill_from NaN (rev ?r @ rev ?lead))"
    using rc rne by (intro ffill_from_clean_head) simp_all
  ultimately show ?thesis by simp
qed

lemma set_sort_order: "set (sort_order dates) = {0..<length dates}"
  unfolding sort_order_def by auto



lemma those_map_length:
  assumes "those (map f xs) = Some ys"
  shows "length ys = length xs \<and> (\<forall>i < length xs. f (xs ! i) = Some (ys ! i))"
  using assms
proof (induction xs arbitrary: ys)
  case Nil
  then show ?case by simp
next
  case (Cons x xs)
  from Cons.prems obtain y ys' where y: "f x = Some y" and r: "those (map f xs) = Some ys'"
    and ys: "ys = y # ys'"
    by (auto split: option.splits)
  from Cons.IH[OF r] y ys show ?case by (auto simp: nth_Cons')
qed









lemma load_data_paths:
  assumes "load_data fs p = Inr p'"
  shows "output_path p' = output_path p"
  using assms by (auto simp: load_data_def split: option.splits)

lemma validate_data_structure_paths:
  assumes "validate_data_structure pd p = Inr (ok, p')"
  shows "output_path p' = output_path p"
  using assms
  by (auto simp: validate_data_structure_def ebind_def the_data_def Let_def
      split: sum.splits if_splits option.splits)

lemma clean_data_paths:
  assumes "clean_data p = Inr p'"
  shows "output_path p' = output_path p"
  using assms
  by (auto simp: clean_data_def ebind_def the_data_def Let_def split: sum.splits option.splits)

lemma validate_price_data_paths:
  assumes "validate_price_data p = Inr (ok, p')"
  shows "output_path p' = output_path p"
  using assms
  by (auto simp: validate_price_data_def ebind_def the_data_def Let_def
      split: sum.splits option.splits)

lemma validate_volume_data_paths:
  assumes "validate_volume_data p = Inr (ok, p')"
  shows "output_path p' = output_path p"
  using assms
  by (auto simp: validate_volume_data_def ebind_def the_data_def Let_def
      split: sum.splits option.splits)

lemma validate_volatility_data_paths:
  assumes "validate_volatility_data p = Inr (ok, p')"
  shows "output_path p' = output_path p"
  using assms
  by (auto simp: validate_volatility_data_def Let_def split: sum.splits option.splits)

lemma enhance_data_paths:
  assumes "enhance_data pd p = Inr p'"
  shows "output_path p' = output_path p"
  using assms
  by (auto simp: enhance_data_def ebind_def the_data_def split: sum.splits option.splits)

lemma normalize_data_paths:
  assumes "normalize_data pd p = Inr p'"
  shows "output_path p' = output_path p"
  using assms
  by (auto simp: normalize_data_def ebind_def the_data_def split: sum.splits option.splits)

lemma enhance_data_succeeds:
  assumes d: "data p = Some df"
    and r: "\<forall>name \<in> set required_columns. \<exists>c. get_col df name = Inr c"
  shows "\<exists>p'. enhance_data pd p = Inr p'"
proof -
  from r obtain cd ch cl cc cv cr cs where
    g: "get_col df ''Date'' = Inr cd" "get_col df ''High'' = Inr ch" "get_col df ''Low'' = Inr cl"
       "get_col df ''Close'' = Inr cc" "get_col df ''Volume'' = Inr cv"
       "get_col df ''log_returns'' = Inr cr" "get_col df ''realized_volatility'' = Inr cs"
    unfolding required_columns_def by fastforce
  have "\<exists>df'. assign_all (enhancements pd) df = Inr df'"
    by (simp add: enhancements_def on1_def on2_def read_col_def get_col_set_col g)
  with d show ?thesis by (auto simp: enhance_data_def the_data_def)
qed

lemma normalize_data_succeeds:
  assumes "data p = Some df"
  shows "\<exists>p'. normalize_data pd p = Inr p' \<and> data p' \<noteq> None"
  using assms by (simp add: normalize_data_def the_data_def)

lemma save_data_succeeds:
  assumes "data p = Some df" "writable fs (output_path p)"
  shows "\<exists>fs'. save_data fs p = Inr fs'"
  using assms by (simp add: save_data_def the_data_def)

lemma run_pipeline_True:
  assumes "load_data fs p = Inr p1" "validate_data_structure pd p1 = Inr (True, p2)"
    "clean_data p2 = Inr p3" "validate_price_data p3 = Inr (True, p4)"
    "validate_volume_data p4 = Inr (True, p5)" "validate_volatility_data p5 = Inr (True, p6)"
    "enhance_data pd p6 = Inr p7" "normalize_data pd p7 = Inr p8" "save_data fs p8 = Inr fs'"
  shows "run_pipeline pd fs p = (True, p8, fs')"
  using assms by (simp add: run_pipeline_def)

lemma cleaned_required_present:
  assumes st: "load_data fs p = Inr p1" "validate_data_structure pd p1 = Inr (True, p2)"
      "clean_data p2 = Inr p3"
    and n: "name \<in> set required_columns"
  shows "\<exists>df3 c. data p3 = Some df3 \<and> get_col df3 name = Inr c"
proof (cases "name = ''Date''")
  case True
  have "''Open'' \<in> set numeric_columns" by (simp add: numeric_columns_def)
  from cleaned_numeric_column[OF st this] True show ?thesis by blast
next
  case False
  with n have "name \<in> set numeric_columns"
    by (auto simp: required_columns_def numeric_columns_def)
  from cleaned_numeric_column[OF st this] show ?thesis by blast
qed

lemma run_pipeline_after_volume:
  assumes st: "load_data fs p = Inr p1" "validate_data_structure pd p1 = Inr (True, p2)"
      "clean_data p2 = Inr p3"
    and v4: "validate_price_data p3 = Inr (True, p4)"
    and v5: "validate_volume_data p4 = Inr (True, p5)"
  shows "\<exists>p6 p7 p8. validate_volatility_data p5 = Inr (True, p6) \<and>
     enhance_data pd p6 = Inr p7 \<and> normalize_data pd p7 = Inr p8 \<and>
     data p8 \<noteq> None \<and> output_path p8 = output_path p \<and>
     run_pipeline pd fs p
       = (case save_data fs p8 of Inl e \<Rightarrow> (False, p8, fs) | Inr fs' \<Rightarrow> (True, p8, fs'))"
proof -
  from volatility_step_returns[OF st v4 v5] obtain p6 where
    v6: "validate_volatility_data p5 = Inr (True, p6)" by blast
  have "''Open'' \<in> set required_columns" by (simp add: required_columns_def)
  from cleaned_required_present[OF st this] obtain df3 where d3: "data p3 = Some df3" by blast
  from validate_price_data_data[OF v4] validate_volume_data_data[OF v5] d3
  have d5: "data p5 = Some df3" by simp
  from validate_volatility_data_cols[OF v6 d5] obtain df6 vol where
    d6: "data p6 = Some df6"
    and g6: "get_floats df6 ''realized_volatility''
       = Inr (map (\<lambda>v. if extreme_value (pd_mean vol) (pd_std vol) v
                        then cap_value (pd_mean vol) (pd_std vol) v else v) vol)"
    and o6: "\<forall>name. name \<noteq> ''realized_volatility'' \<longrightarrow> get_col df6 name = get_col df3 name"
    by blast
  have "\<exists>c. get_col df6 name = Inr c" if n: "name \<in> set required_columns" for name
  proof (cases "name = ''realized_volatility''")
    case True
    with g6 show ?thesis by (auto simp: get_floats_def split: sum.splits)
  next
    case False
    from cleaned_required_present[OF st n] d3 obtain c where "get_col df3 name = Inr c" by auto
    with o6 False show ?thesis by simp
  qed
  then have "\<forall>name \<in> set required_columns. \<exists>c. get_col df6 name = Inr c" by blast
  from enhance_data_succeeds[OF d6 this] obtain p7 where e: "enhance_data pd p6 = Inr p7" by blast
  from e obtain df7 where d7: "data p7 = Some df7"
    by (auto simp: enhance_data_def ebind_def the_data_def split: sum.splits option.splits)
  from normalize_data_succeeds[OF d7] obtain p8 where nz: "normalize_data pd p7 = Inr p8"
    and d8: "data p8 \<noteq> None" by blast
  have op: "output_path p8 = output_path p"
    using load_data_paths[OF st(1)] validate_data_structure_paths[OF st(2)]
      clean_data_paths[OF st(3)] validate_price_data_paths[OF v4]
      validate_volume_data_paths[OF v5] validate_volatility_data_paths[OF v6]
      enhance_data_paths[OF e] normalize_data_paths[OF nz] by simp
  have "run_pipeline pd fs p
       = (case save_data fs p8 of Inl e \<Rightarrow> (False, p8, fs) | Inr fs' \<Rightarrow> (True, p8, fs'))"
    by (simp add: run_pipeline_def st v4 v5 v6 e nz)
  with v6 e nz d8 op show ?thesis by blast
qed

lemma run_pipeline_succeeds:
  assumes st: "load_data fs p = Inr p1" "validate_data_structure pd p1 = Inr (True, p2)"
      "clean_data p2 = Inr p3"
    and v4: "validate_price_data p3 = Inr (True, p4)"
    and v5: "validate_volume_data p4 = Inr (True, p5)"
    and w: "writable fs (output_path p)"
  shows "\<exists>p' fs'. run_pipeline pd fs p = (True, p', fs')"
proof -
  from run_pipeline_after_volume[OF st v4 v5] obtain p8 df8 where
    d8: "data p8 = Some df8" and op: "output_path p8 = output_path p"
    and r: "run_pipeline pd fs p
       = (case save_data fs p8 of Inl e \<Rightarrow> (False, p8, fs) | Inr fs' \<Rightarrow> (True, p8, fs'))"
    by auto
  from w op have "writable fs (output_path p8)" by simp
  from save_data_succeeds[OF d8 this] obtain fs' where "save_data fs p8 = Inr fs'" by blast
  with r show ?thesis by simp
qed

section \<open>Validators as gates\<close>

lemma validate_volatility_data_errors:
  assumes "validate_volatility_data p = Inr (ok, p')"
  shows "\<exists>df vol. data p = Some df \<and> get_floats df ''realized_volatility'' = Inr vol \<and>
     validation_errors p'
       = validation_errors p @ (if list_ex (\<lambda>v. flt v (Some 0)) vol
                                then [Negative_volatility_values_found] else [])"
  using assms
  by (auto simp: validate_volatility_data_def Let_def split: option.splits sum.splits)

text \<open>
  C3. validate_volatility_data never returns False: what it finds it records (one
  diagnostic for negative values, appended to those already there) or caps. Reached
  inside run_pipeline, after the price and volume validators have passed, it always
  returns, and the pipeline goes on through enhance_data and normalize_data to
  save_data; the result of run_pipeline is then that of the save, True whenever the
  output path is writable. When validate_price_data or validate_volume_data returns
  False, run_pipeline returns False with the file system as it was and with the
  cleaned table, before any derived column is computed.
\<close>

theorem validation_gates:
  "(\<forall>p ok p'. validate_volatility_data p = Inr (ok, p') \<longrightarrow>
      ok \<and>
      (\<exists>df vol. data p = Some df \<and> get_floats df ''realized_volatility'' = Inr vol \<and>
         validation_errors p'
           = validation_errors p @ (if list_ex (\<lambda>v. flt v (Some 0)) vol
                                    then [Negative_volatility_values_found] else []))) \<and>
   (\<forall>pd fs p p1 p2 p3 p4 p5.
      load_data fs p = Inr p1 \<and> validate_data_structure pd p1 = Inr (True, p2) \<and>
      clean_data p2 = Inr p3 \<and> validate_price_data p3 = Inr (True, p4) \<and>
      validate_volume_data p4 = Inr (True, p5) \<longrightarrow>
      (\<exists>p6 p7 p8.
         validate_volatility_data p5 = Inr (True, p6) \<and>
         enhance_data pd p6 = Inr p7 \<and> normalize_data pd p7 = Inr p8 \<and>
         run_pipeline pd fs p
           = (case save_data fs p8 of Inl e \<Rightarrow> (False, p8, fs) | Inr fs' \<Rightarrow> (True, p8, fs')) \<and>
         (writable fs (output_path p) \<longrightarrow> fst (run_pipeline pd fs p)))) \<and>
   (\<forall>pd fs p p1 p2 p3 p4.
      load_data fs p = Inr p1 \<and> validate_data_structure pd p1 = Inr (True, p2) \<and>
      clean_data p2 = Inr p3 \<and> validate_price_data p3 = Inr (False, p4) \<longrightarrow>
      run_pipeline pd fs p = (False, p4, fs) \<and> data p4 = data p3) \<and>
   (\<forall>pd fs p p1 p2 p3 p4 p5.
      load_data fs p = Inr p1 \<and> validate_data_structure pd p1 = Inr (True, p2) \<and>
      clean_data p2 = Inr p3 \<and> validate_price_data p3 = Inr (True, p4) \<and>
      validate_volume_data p4 = Inr (False, p5) \<longrightarrow>
      run_pipeline pd fs p = (False, p5, fs) \<and> data p5 = data p3)"
proof -
  have a0: "ok \<and>
      (\<exists>df vol. data p = Some df \<and> get_floats df ''realized_volatility'' = Inr vol \<and>
         validation_errors p'
           = validation_errors p @ (if list_ex (\<lambda>v. flt v (Some 0)) vol
                                    then [Negative_volatility_values_found] else []))"
    if "validate_volatility_data p = Inr (ok, p')" for p ok p'
    using validate_volatility_data_True[OF that] validate_volatility_data_errors[OF that]
    by (rule conjI)
  have a: "\<forall>p ok p'. validate_volatility_data p = Inr (ok, p') \<longrightarrow>
      ok \<and>
      (\<exists>df vol. data p = Some df \<and> get_floats df ''realized_volatility'' = Inr vol \<and>
         validation_errors p'
           = validation_errors p @ (if list_ex (\<lambda>v. flt v (Some 0)) vol
                                    then [Negative_volatility_values_found] else []))"
    by (intro allI impI) (rule a0)
  have b0: "\<exists>p6 p7 p8.
         validate_volatility_data p5 = Inr (True, p6) \<and>
         enhance_data pd p6 = Inr p7 \<and> normalize_data pd p7 = Inr p8 \<and>
         run_pipeline pd fs p
           = (case save_data fs p8 of Inl e \<Rightarrow> (False, p8, fs) | Inr fs' \<Rightarrow> (True, p8, fs')) \<and>
         (writable fs (output_path p) \<longrightarrow> fst (run_pipeline pd fs p))"
    if h: "load_data fs p = Inr p1 \<and> validate_data_structure pd p1 = Inr (True, p2) \<and>
      clean_data p2 = Inr p3 \<and> validate_price_data p3 = Inr (True, p4) \<and>
      validate_volume_data p4 = Inr (True, p5)"
    for pd fs p p1 p2 p3 p4 p5
  proof -
    from h have st: "load_data fs p = Inr p1" "validate_data_structure pd p1 = Inr (True, p2)"
      "clean_data p2 = Inr p3" and v4: "validate_price_data p3 = Inr (True, p4)"
      and v5: "validate_volume_data p4 = Inr (True, p5)" by simp_all
    from run_pipeline_after_volume[OF st v4 v5] obtain p6 p7 p8 where
      s: "validate_volatility_data p5 = Inr (True, p6)" "enhance_data pd p6 = Inr p7"
        "normalize_data pd p7 = Inr p8"
      and r: "run_pipeline pd fs p
           = (case save_data fs p8 of Inl e \<Rightarrow> (False, p8, fs) | Inr fs' \<Rightarrow> (True, p8, fs'))"
      by blast
    have "fst (run_pipeline pd fs p)" if w: "writable fs (output_path p)"
    proof -
      from run_pipeline_succeeds[OF st v4 v5 w] obtain p' fs' where
        "run_pipeline pd fs p = (True, p', fs')" by blast
      then show ?thesis by simp
    qed
    with s r show ?thesis by blast
  qed
  have b: "\<forall>pd fs p p1 p2 p3 p4 p5.
      load_data fs p = Inr p1 \<and> validate_data_structure pd p1 = Inr (True, p2) \<and>
      clean_data p2 = Inr p3 \<and> validate_price_data p3 = Inr (True, p4) \<and>
      validate_volume_data p4 = Inr (True, p5) \<longrightarrow>
      (\<exists>p6 p7 p8.
         validate_volatility_data p5 = Inr (True, p6) \<and>
         enhance_data pd p6 = Inr p7 \<and> normalize_data pd p7 = Inr p8 \<and>
         run_pipeline pd fs p
           = (case save_data fs p8 of Inl e \<Rightarrow> (False, p8, fs) | Inr fs' \<Rightarrow> (True, p8, fs')) \<and>
         (writable fs (output_path p) \<longrightarrow> fst (run_pipeline pd fs p)))"
    by (intro allI impI) (rule b0)
  have c0: "run_pipeline pd fs p = (False, p4, fs) \<and> data p4 = data p3"
    if "load_data fs p = Inr p1 \<and> validate_data_structure pd p1 = Inr (True, p2) \<and>
      clean_data p2 = Inr p3 \<and> validate_price_data p3 = Inr (False, p4)"
    for pd fs p p1 p2 p3 p4
    using that validate_price_data_data[of p3 False p4] by (simp add: run_pipeline_def)
  have c: "\<forall>pd fs p p1 p2 p3 p4.
      load_data fs p = Inr p1 \<and> validate_data_structure pd p1 = Inr (True, p2) \<and>
      clean_data p2 = Inr p3 \<and> validate_price_data p3 = Inr (False, p4) \<longrightarrow>
      run_pipeline pd fs p = (False, p4, fs) \<and> data p4 = data p3"
    by (intro allI impI) (rule c0)
  have d0: "run_pipeline pd fs p = (False, p5, fs) \<and> data p5 = data p3"
    if "load_data fs p = Inr p1 \<and> validate_data_structure pd p1 = Inr (True, p2) \<and>
      clean_data p2 = Inr p3 \<and> validate_price_data p3 = Inr (True, p4) \<and>
      validate_volume_data p4 = Inr (False, p5)"
    for pd fs p p1 p2 p3 p4 p5
    using that validate_price_data_data[of p3 True p4] validate_volume_data_data[of p4 False p5]
    by (simp add: run_pipeline_def)
  have d: "\<forall>pd fs p p1 p2 p3 p4 p5.
      load_data fs p = Inr p1 \<and> validate_data_structure pd p1 = Inr (True, p2) \<and>
      clean_data p2 = Inr p3 \<and> validate_price_data p3 = Inr (True, p4) \<and>
      validate_volume_data p4 = Inr (False, p5) \<longrightarrow>
      run_pipeline pd fs p = (False, p5, fs) \<and> data p5 = data p3"
    by (intro allI impI) (rule d0)
  show ?thesis by (intro conjI; (rule a | rule b | rule c | rule d))
qed

lemma zero_volume_stages:
  "load_data zero_volume_files (new_pipeline ''raw.csv'' ''processed.csv'')
     = Inr ((new_pipeline ''raw.csv'' ''processed.csv'')\<lparr>data := Some zero_volume_table\<rparr>)"
  "validate_data_structure plain_pandas
       ((new_pipeline ''raw.csv'' ''processed.csv'')\<lparr>data := Some zero_volume_table\<rparr>)
     = Inr (True, (new_pipeline ''raw.csv'' ''processed.csv'')\<lparr>data := Some zero_volume_table\<rparr>)"
  "clean_data ((new_pipeline ''raw.csv'' ''processed.csv'')\<lparr>data := Some zero_volume_table\<rparr>)
     = Inr ((new_pipeline ''raw.csv'' ''processed.csv'')\<lparr>data := Some zero_volume_table\<rparr>)"
  "validate_price_data ((new_pipeline ''raw.csv'' ''processed.csv'')\<lparr>data := Some zero_volume_table\<rparr>)
     = Inr (True, (new_pipeline ''raw.csv'' ''processed.csv'')\<lparr>data := Some zero_volume_table\<rparr>)"
  "validate_volume_data ((new_pipeline ''raw.csv'' ''processed.csv'')\<lparr>data := Some zero_volume_table\<rparr>)
     = Inr (False, (new_pipeline ''raw.csv'' ''processed.csv'')
               \<lparr>data := Some zero_volume_table, validation_errors := [Zero_volume_values_found]\<rparr>)"
  by code_simp+

lemma negative_price_stages:
  "load_data negative_price_files (new_pipeline ''raw.csv'' ''processed.csv'')
     = Inr ((new_pipeline ''raw.csv'' ''processed.csv'')\<lparr>data := Some negative_price_table\<rparr>)"
  "validate_data_structure plain_pandas
       ((new_pipeline ''raw.csv'' ''processed.csv'')\<lparr>data := Some negative_price_table\<rparr>)
     = Inr (True, (new_pipeline ''raw.csv'' ''processed.csv'')\<lparr>data := Some negative_price_table\<rparr>)"
  "clean_data ((new_pipeline ''raw.csv'' ''processed.csv'')\<lparr>data := Some negative_price_table\<rparr>)
     = Inr ((new_pipeline ''raw.csv'' ''processed.csv'')\<lparr>data := Some negative_price_table\<rparr>)"
  "validate_price_data ((new_pipeline ''raw.csv'' ''processed.csv'')\<lparr>data := Some negative_price_table\<rparr>)
     = Inr (False, (new_pipeline ''raw.csv'' ''processed.csv'')
               \<lparr>data := Some negative_price_table,
                validation_errors := [Negative_values_found_in ''Open'',
                                      Negative_values_found_in ''Low'']\<rparr>)"
  by code_simp+

lemma negative_volatility_stages:
  "load_data negative_volatility_files (new_pipeline ''raw.csv'' ''processed.csv'')
     = Inr ((new_pipeline ''raw.csv'' ''processed.csv'')\<lparr>data := Some negative_volatility_table\<rparr>)"
  "validate_data_structure plain_pandas
       ((new_pipeline ''raw.csv'' ''processed.csv'')\<lparr>data := Some negative_volatility_table\<rparr>)
     = Inr (True, (new_pipeline ''raw.csv'' ''processed.csv'')\<lparr>data := Some negative_volatility_table\<rparr>)"
  "clean_data ((new_pipeline ''raw.csv'' ''processed.csv'')\<lparr>data := Some negative_volatility_table\<rparr>)
     = Inr ((new_pipeline ''raw.csv'' ''processed.csv'')\<lparr>data := Some negative_volatility_table\<rparr>)"
  "validate_price_data ((new_pipeline ''raw.csv'' ''processed.csv'')\<lparr>data := Some negative_volatility_table\<rparr>)
     = Inr (True, (new_pipeline ''raw.csv'' ''processed.csv'')\<lparr>data := Some negative_volatility_table\<rparr>)"
  "validate_volume_data ((new_pipeline ''raw.csv'' ''processed.csv'')\<lparr>data := Some negative_volatility_table\<rparr>)
     = Inr (True, (new_pipeline ''raw.csv'' ''processed.csv'')\<lparr>data := Some negative_volatility_table\<rparr>)"
  by code_simp+

lemma negative_volatility_floats:
  "get_floats negative_volatility_table ''realized_volatility'' = Inr [Some (- 1/50), Some (1/50)]"
  by (simp add: negative_volatility_table_def get_floats_def get_col_def is_float_def num_of_def)

theorem validation_gates_witness:
  "run_pipeline plain_pandas zero_volume_files (new_pipeline ''raw.csv'' ''processed.csv'')
     = (False,
        (new_pipeline ''raw.csv'' ''processed.csv'')
          \<lparr>data := Some zero_volume_table, validation_errors := [Zero_volume_values_found]\<rparr>,
        zero_volume_files) \<and>
   run_pipeline plain_pandas negative_price_files (new_pipeline ''raw.csv'' ''processed.csv'')
     = (False,
        (new_pipeline ''raw.csv'' ''processed.csv'')
          \<lparr>data := Some negative_price_table,
           validation_errors := [Negative_values_found_in ''Open'',
                                 Negative_values_found_in ''Low'']\<rparr>,
        negative_price_files) \<and>
   fst (run_pipeline plain_pandas negative_volatility_files
          (new_pipeline ''raw.csv'' ''processed.csv'')) \<and>
   (\<exists>p6. validate_volatility_data
            ((new_pipeline ''raw.csv'' ''processed.csv'')\<lparr>data := Some negative_volatility_table\<rparr>)
          = Inr (True, p6) \<and>
         validation_errors p6 = [Negative_volatility_values_found])"
proof -
  let ?p = "new_pipeline ''raw.csv'' ''processed.csv''"
  let ?p5 = "?p\<lparr>data := Some negative_volatility_table\<rparr>"
  from validation_gates have ga: "\<forall>p ok p'. validate_volatility_data p = Inr (ok, p') \<longrightarrow>
      ok \<and>
      (\<exists>df vol. data p = Some df \<and> get_floats df ''realized_volatility'' = Inr vol \<and>
         validation_errors p'
           = validation_errors p @ (if list_ex (\<lambda>v. flt v (Some 0)) vol
                                    then [Negative_volatility_values_found] else []))"
    by (elim conjE)
  from validation_gates have gb: "\<forall>pd fs p p1 p2 p3 p4 p5.
      load_data fs p = Inr p1 \<and> validate_data_structure pd p1 = Inr (True, p2) \<and>
      clean_data p2 = Inr p3 \<and> validate_price_data p3 = Inr (True, p4) \<and>
      validate_volume_data p4 = Inr (True, p5) \<longrightarrow>
      (\<exists>p6 p7 p8.
         validate_volatility_data p5 = Inr (True, p6) \<and>
         enhance_data pd p6 = Inr p7 \<and> normalize_data pd p7 = Inr p8 \<and>
         run_pipeline pd fs p
           = (case save_data fs p8 of Inl e \<Rightarrow> (False, p8, fs) | Inr fs' \<Rightarrow> (True, p8, fs')) \<and>
         (writable fs (output_path p) \<longrightarrow> fst (run_pipeline pd fs p)))"
    by (elim conjE)
  from validation_gates have gc: "\<forall>pd fs p p1 p2 p3 p4.
      load_data fs p = Inr p1 \<and> validate_data_structure pd p1 = Inr (True, p2) \<and>
      clean_data p2 = Inr p3 \<and> validate_price_data p3 = Inr (False, p4) \<longrightarrow>
      run_pipeline pd fs p = (False, p4, fs) \<and> data p4 = data p3"
    by (elim conjE)
  from validation_gates have gd: "\<forall>pd fs p p1 p2 p3 p4 p5.
      load_data fs p = Inr p1 \<and> validate_data_structure pd p1 = Inr (True, p2) \<and>
      clean_data p2 = Inr p3 \<and> validate_price_data p3 = Inr (True, p4) \<and>
      validate_volume_data p4 = Inr (False, p5) \<longrightarrow>
      run_pipeline pd fs p = (False, p5, fs) \<and> data p5 = data p3"
    by (elim conjE)
  from gd[rule_format, OF conjI[OF zero_volume_stages(1) conjI[OF zero_volume_stages(2)
        conjI[OF zero_volume_stages(3) conjI[OF zero_volume_stages(4) zero_volume_stages(5)]]]]]
  have volume: "run_pipeline plain_pandas zero_volume_files ?p
     = (False, ?p\<lparr>data := Some zero_volume_table, validation_errors := [Zero_volume_values_found]\<rparr>,
        zero_volume_files)"
    by (rule conjunct1)
  from gc[rule_format, OF conjI[OF negative_price_stages(1) conjI[OF negative_price_stages(2)
        conjI[OF negative_price_stages(3) negative_price_stages(4)]]]]
  have price: "run_pipeline plain_pandas negative_price_files ?p
     = (False, ?p\<lparr>data := Some negative_price_table,
           validation_errors := [Negative_values_found_in ''Open'',
                                 Negative_values_found_in ''Low'']\<rparr>,
        negative_price_files)"
    by (rule conjunct1)
  from gb[rule_format, OF conjI[OF negative_volatility_stages(1)
        conjI[OF negative_volatility_stages(2) conjI[OF negative_volatility_stages(3)
        conjI[OF negative_volatility_stages(4) negative_volatility_stages(5)]]]]]
  obtain p6 where v6: "validate_volatility_data ?p5 = Inr (True, p6)"
    and w: "writable negative_volatility_files (output_path ?p) \<longrightarrow>
         fst (run_pipeline plain_pandas negative_volatility_files ?p)"
    by blast
  have "writable negative_volatility_files (output_path ?p)"
    by (simp add: negative_volatility_files_def)
  with w have run: "fst (run_pipeline plain_pandas negative_volatility_files ?p)" by blast
  from ga[rule_format, OF v6] obtain df vol where
    d: "data ?p5 = Some df" and f: "get_floats df ''realized_volatility'' = Inr vol"
    and e: "validation_errors p6
           = validation_errors ?p5 @ (if list_ex (\<lambda>v. flt v (Some 0)) vol
                                    then [Negative_volatility_values_found] else [])"
    by blast
  from d have "df = negative_volatility_table" by simp
  with f negative_volatility_floats have "vol = [Some (- 1/50), Some (1/50)]" by simp
  with e have "validation_errors p6 = [Negative_volatility_values_found]"
    by (simp add: new_pipeline_def flt_def)
  with v6 have "\<exists>p6. validate_volatility_data ?p5 = Inr (True, p6) \<and>
         validation_errors p6 = [Negative_volatility_values_found]" by blast
  with volume price run show ?thesis by (intro conjI)
qed

section \<open>Missing values in the persisted output\<close>








section \<open>Running the pipeline on its own output\<close>

subsection \<open>clean_data on a cleaned column\<close>

lemma ffill_from_filled: "NaN \<notin> set c \<Longrightarrow> ffill_from prev c = c"
  by (induction c arbitrary: prev) auto

lemma ffill_from_missing: "\<forall>x \<in> set c. x = NaN \<Longrightarrow> ffill_from prev c = replicate (length c) prev"
  by (induction c arbitrary: prev) auto

lemma length_ffill_from: "length (ffill_from prev c) = length c"
  by (induction c arbitrary: prev) auto

lemma length_fill: "length (bfill (ffill c)) = length c"
  by (simp add: bfill_def ffill_def length_ffill_from)

lemma settled_fill_id:
  assumes "settled c"
  shows "bfill (ffill c) = c"
proof (cases "NaN \<in> set c")
  case False
  then have "ffill c = c" by (simp add: ffill_def ffill_from_filled)
  moreover from False have "ffill (rev c) = rev c"
    unfolding ffill_def by (intro ffill_from_filled) simp
  ultimately show ?thesis by (simp add: bfill_def)
next
  case True
  with assms have a: "\<forall>x \<in> set c. x = NaN" by (auto simp: settled_def)
  then have c: "c = replicate (length c) NaN" by (simp add: replicate_length_same)
  from a have "ffill c = replicate (length c) NaN" by (simp add: ffill_def ffill_from_missing)
  with c have f: "ffill c = c" by simp
  from a have "ffill (rev c) = replicate (length (rev c)) NaN"
    unfolding ffill_def by (intro ffill_from_missing) simp
  then have "rev (ffill (rev c)) = replicate (length c) NaN" by simp
  with c f show ?thesis by (simp add: bfill_def)
qed

lemma settled_fill: "settled (bfill (ffill c))"
proof (cases "\<exists>x \<in> set c. x \<noteq> NaN")
  case True
  from no_nan_bfill_ffill[OF this] show ?thesis by (simp add: settled_def)
next
  case False
  then have "settled c" by (auto simp: settled_def)
  from settled_fill_id[OF this] False show ?thesis by (auto simp: settled_def)
qed

lemma settled_keep_rows:
  assumes "settled c"
  shows "settled (keep_rows keep c)"
  using assms set_keep_rows[of keep c] by (auto simp: settled_def)

lemma settled_clean_col: "settled (clean_col dates c)"
  unfolding clean_col_def by (intro settled_keep_rows settled_fill)

lemma length_keep_rows:
  "length c = length c' \<Longrightarrow> length (keep_rows keep c) = length (keep_rows keep c')"
proof (induction keep arbitrary: c c')
  case Nil
  then show ?case by (simp add: keep_rows_def)
next
  case (Cons k keep)
  show ?case
  proof (cases c)
    case Nil
    with Cons.prems show ?thesis by (simp add: keep_rows_def)
  next
    case c: (Cons x xs)
    with Cons.prems obtain y ys where c': "c' = y # ys" and l: "length xs = length ys"
      by (cases c') auto
    from Cons.IH[OF l] c c' show ?thesis by (simp add: keep_rows_def)
  qed
qed

lemma length_take_rows: "length (take_rows order c) = length order"
  by (simp add: take_rows_def)

lemma length_clean_col:
  "length (clean_col dates c) = length (clean_col dates c')"
  unfolding clean_col_def
  by (intro length_keep_rows) (simp add: length_fill length_take_rows)

lemma take_rows_all:
  assumes "length c = n"
  shows "take_rows [0..<n] c = c"
  using assms by (auto simp: take_rows_def intro: nth_equalityI)

lemma first_occurrences_distinct:
  assumes "distinct d"
  shows "first_occurrences d = replicate (length d) True"
proof -
  have "d ! i \<notin> set (take i d)" if "i < length d" for i
  proof
    assume "d ! i \<in> set (take i d)"
    then obtain j where j: "j < length (take i d)" "take i d ! j = d ! i"
      by (auto simp: in_set_conv_nth)
    with that have "j < i" "d ! j = d ! i" by simp_all
    with assms that show False by (auto simp: distinct_conv_nth)
  qed
  then show ?thesis
    by (auto simp: first_occurrences_def intro: nth_equalityI)
qed

lemma keep_rows_all:
  assumes "length c = n"
  shows "keep_rows (replicate n True) c = c"
proof -
  have "filter snd (zip c (replicate n True)) = zip c (replicate n True)"
    by (rule filter_True) (auto simp: set_zip)
  with assms show ?thesis by (simp add: keep_rows_def)
qed

lemma sort_order_tidy:
  assumes "tidy_dates d"
  shows "sort_order d = [0..<length d]"
proof -
  from assms consider (ts) "\<forall>x \<in> set d. is_ts x" "sorted (map ts_of d)"
    | (nan) "\<forall>x \<in> set d. x = NaN" by (auto simp: tidy_dates_def)
  then show ?thesis
  proof cases
    case ts
    from ts(1) have a: "filter (\<lambda>i. is_ts (d ! i)) [0..<length d] = [0..<length d]"
      by (intro filter_True) simp
    from ts(1) have b: "filter (\<lambda>i. \<not> is_ts (d ! i)) [0..<length d] = []"
      by (simp add: filter_empty_conv)
    have "map (\<lambda>i. ts_of (d ! i)) [0..<length d] = map ts_of d"
      by (intro nth_equalityI) simp_all
    with ts(2) have "sorted (map (\<lambda>i. ts_of (d ! i)) [0..<length d])" by simp
    then have "sort_key (\<lambda>i. ts_of (d ! i)) [0..<length d] = [0..<length d]"
      by (rule sort_key_id_if_sorted)
    with a b show ?thesis by (simp add: sort_order_def)
  next
    case nan
    then have "\<forall>x \<in> set d. \<not> is_ts x" by (auto simp: is_ts_def)
    then have a: "filter (\<lambda>i. is_ts (d ! i)) [0..<length d] = []"
      by (simp add: filter_empty_conv)
    from \<open>\<forall>x \<in> set d. \<not> is_ts x\<close>
    have b: "filter (\<lambda>i. \<not> is_ts (d ! i)) [0..<length d] = [0..<length d]"
      by (intro filter_True) simp
    from a b show ?thesis by (simp add: sort_order_def)
  qed
qed

lemma tidy_dates_settled:
  assumes "tidy_dates d"
  shows "settled d"
proof -
  have "x \<noteq> NaN" if "is_ts x" for x using that by (auto simp: is_ts_def)
  with assms show ?thesis by (auto simp: tidy_dates_def settled_def)
qed

lemma clean_col_tidy:
  assumes t: "tidy_dates d" and s: "settled c" and l: "length c = length d"
  shows "clean_col d c = c"
proof -
  have o: "sort_order d = [0..<length d]" by (rule sort_order_tidy[OF t])
  have td: "take_rows (sort_order d) d = d" unfolding o by (rule take_rows_all) simp
  have tc: "take_rows (sort_order d) c = c" unfolding o by (rule take_rows_all[OF l])
  have fd: "bfill (ffill d) = d" by (rule settled_fill_id[OF tidy_dates_settled[OF t]])
  have fc: "bfill (ffill c) = c" by (rule settled_fill_id[OF s])
  from t have "distinct d" by (simp add: tidy_dates_def)
  from first_occurrences_distinct[OF this]
  have k: "first_occurrences d = replicate (length d) True" .
  show ?thesis unfolding clean_col_def td tc fd fc k by (rule keep_rows_all[OF l])
qed

subsection \<open>The Date column after clean_data\<close>

lemma length_first_occurrences: "length (first_occurrences d) = length d"
  by (simp add: first_occurrences_def)

lemma first_occurrences_snoc:
  "first_occurrences (d @ [x]) = first_occurrences d @ [x \<notin> set d]"
  by (auto simp: first_occurrences_def nth_append)

lemma keep_rows_snoc:
  assumes "length keep = length c"
  shows "keep_rows (keep @ [b]) (c @ [x]) = keep_rows keep c @ (if b then [x] else [])"
  using assms by (simp add: keep_rows_def)

lemma drop_duplicates_snoc:
  "keep_rows (first_occurrences (d @ [x])) (d @ [x])
     = keep_rows (first_occurrences d) d @ (if x \<notin> set d then [x] else [])"
  unfolding first_occurrences_snoc
  by (rule keep_rows_snoc) (rule length_first_occurrences)

lemma set_drop_duplicates: "set (keep_rows (first_occurrences d) d) = set d"
proof (induction d rule: rev_induct)
  case Nil
  then show ?case by (simp add: keep_rows_def first_occurrences_def)
next
  case (snoc x d)
  then show ?case unfolding drop_duplicates_snoc by auto
qed

lemma distinct_drop_duplicates: "distinct (keep_rows (first_occurrences d) d)"
proof (induction d rule: rev_induct)
  case Nil
  then show ?case by (simp add: keep_rows_def first_occurrences_def)
next
  case (snoc x d)
  then show ?case unfolding drop_duplicates_snoc by (simp add: set_drop_duplicates)
qed

lemma sorted_drop_duplicates:
  fixes f :: "cell \<Rightarrow> int"
  assumes "sorted (map f d)"
  shows "sorted (map f (keep_rows (first_occurrences d) d))"
  using assms
proof (induction d rule: rev_induct)
  case Nil
  then show ?case by (simp add: keep_rows_def first_occurrences_def)
next
  case (snoc x d)
  from snoc.prems have s: "sorted (map f d)" and le: "\<forall>y \<in> set d. f y \<le> f x"
    by (auto simp: sorted_append)
  from snoc.IH[OF s] le show ?case
    unfolding drop_duplicates_snoc by (auto simp: sorted_append set_drop_duplicates)
qed

lemma take_rows_in_range:
  assumes "\<forall>i \<in> set order. i < length c"
  shows "take_rows order c = map ((!) c) order"
  using assms by (simp add: take_rows_def)

lemma ffill_from_append:
  assumes "NaN \<notin> set a"
  shows "ffill_from prev (a @ n) = a @ ffill_from (if a = [] then prev else last a) n"
  using assms by (induction a arbitrary: prev) auto

lemma fill_sorted_dates:
  assumes a: "NaN \<notin> set a" "a \<noteq> []" and n: "\<forall>x \<in> set n. x = NaN"
  shows "bfill (ffill (a @ n)) = a @ replicate (length n) (last a)"
proof -
  have "ffill (a @ n) = a @ ffill_from (last a) n"
    using ffill_from_append[OF a(1), of NaN n] a(2) by (simp add: ffill_def)
  also have "\<dots> = a @ replicate (length n) (last a)"
    using n by (simp add: ffill_from_missing)
  finally have f: "ffill (a @ n) = a @ replicate (length n) (last a)" .
  from last_in_set[OF a(2)] a(1) have "last a \<noteq> NaN" by metis
  with a(1) have "NaN \<notin> set (a @ replicate (length n) (last a))" by auto
  then have "settled (a @ replicate (length n) (last a))" by (simp add: settled_def)
  from settled_fill_id[OF this] have "bfill (ffill (a @ replicate (length n) (last a)))
      = a @ replicate (length n) (last a)" .
  moreover have "ffill (a @ replicate (length n) (last a)) = a @ replicate (length n) (last a)"
    using \<open>NaN \<notin> set (a @ replicate (length n) (last a))\<close>
    unfolding ffill_def by (rule ffill_from_filled)
  ultimately have "bfill (a @ replicate (length n) (last a)) = a @ replicate (length n) (last a)"
    by simp
  with f show ?thesis by simp
qed

lemma sorted_rows:
  assumes d: "\<forall>x \<in> set ds. x = NaN \<or> is_ts x"
  shows "\<exists>a n. take_rows (sort_order ds) ds = a @ n \<and> (\<forall>x \<in> set a. is_ts x) \<and>
     sorted (map ts_of a) \<and> (\<forall>x \<in> set n. x = NaN)"
proof -
  let ?k = "\<lambda>i. ts_of (ds ! i)"
  let ?ts = "sort_key ?k (filter (\<lambda>i. is_ts (ds ! i)) [0..<length ds])"
  let ?nt = "filter (\<lambda>i. \<not> is_ts (ds ! i)) [0..<length ds]"
  let ?a = "map ((!) ds) ?ts" and ?n = "map ((!) ds) ?nt"
  have "\<forall>i \<in> set (sort_order ds). i < length ds" by (simp add: set_sort_order)
  from take_rows_in_range[OF this]
  have s: "take_rows (sort_order ds) ds = ?a @ ?n" by (simp add: sort_order_def)
  have a1: "\<forall>x \<in> set ?a. is_ts x" by auto
  have e: "map ts_of ?a = map ?k ?ts" by (simp add: comp_def)
  have a2: "sorted (map ts_of ?a)" unfolding e by (rule sorted_sort_key)
  have n1: "\<forall>x \<in> set ?n. x = NaN"
  proof
    fix x assume "x \<in> set ?n"
    then obtain i where i: "i < length ds" "\<not> is_ts (ds ! i)" "x = ds ! i" by auto
    from i(1) have "ds ! i \<in> set ds" by simp
    with d i(2,3) show "x = NaN" by auto
  qed
  from s a1 a2 n1 show ?thesis by blast
qed

lemma sorted_le_last:
  fixes xs :: "int list"
  assumes "sorted xs" "x \<in> set xs"
  shows "x \<le> last xs"
  using assms by (induction xs) auto

lemma tidy_clean_dates:
  assumes d: "\<forall>x \<in> set ds. x = NaN \<or> is_ts x"
  shows "tidy_dates (clean_col ds ds)"
proof -
  from sorted_rows[OF d] obtain a n where
    s: "take_rows (sort_order ds) ds = a @ n" and a1: "\<forall>x \<in> set a. is_ts x"
    and a2: "sorted (map ts_of a)" and n1: "\<forall>x \<in> set n. x = NaN" by blast
  let ?b = "bfill (ffill (a @ n))"
  have c: "clean_col ds ds = keep_rows (first_occurrences ?b) ?b"
    by (simp add: clean_col_def s)
  have dist: "distinct (clean_col ds ds)" unfolding c by (rule distinct_drop_duplicates)
  have st: "set (clean_col ds ds) = set ?b" unfolding c by (rule set_drop_duplicates)
  show ?thesis
  proof (cases "a = []")
    case True
    with n1 have "settled (a @ n)" by (simp add: settled_def)
    from settled_fill_id[OF this] True have "?b = n" by simp
    with st n1 have "\<forall>x \<in> set (clean_col ds ds). x = NaN" by simp
    with dist show ?thesis by (simp add: tidy_dates_def)
  next
    case False
    from a1 have nn: "NaN \<notin> set a" by (auto simp: is_ts_def)
    from fill_sorted_dates[OF nn False n1]
    have b: "?b = a @ replicate (length n) (last a)" .
    from False have la: "last a \<in> set a" by simp
    with a1 have ts: "\<forall>x \<in> set ?b. is_ts x" unfolding b by auto
    have "ts_of x \<le> ts_of (last a)" if "x \<in> set a" for x
    proof -
      from that have "ts_of x \<in> set (map ts_of a)" by simp
      moreover from False have "last (map ts_of a) = ts_of (last a)" by (simp add: last_map)
      ultimately show ?thesis using sorted_le_last[OF a2, of "ts_of x"] by simp
    qed
    with a2 have "sorted (map ts_of ?b)" unfolding b by (auto simp: sorted_append)
    then have "sorted (map ts_of (clean_col ds ds))"
      unfolding c by (rule sorted_drop_duplicates)
    with dist st ts show ?thesis by (simp add: tidy_dates_def)
  qed
qed

lemma to_datetime_cells:
  assumes "those (map (to_datetime_cell pd) dates) = Some ds"
  shows "\<forall>x \<in> set ds. x = NaN \<or> is_ts x"
proof
  fix x assume "x \<in> set ds"
  then obtain i where i: "i < length ds" "ds ! i = x" by (auto simp: in_set_conv_nth)
  have r: "y = NaN \<or> is_ts y" if "to_datetime_cell pd c = Some y" for c y
    using that by (cases c) (auto simp: to_datetime_cell_def is_ts_def)
  from those_map_length[OF assms] i(1)
  have "to_datetime_cell pd (dates ! i) = Some (ds ! i)" by simp
  from r[OF this] i(2) show "x = NaN \<or> is_ts x" by simp
qed

lemma to_datetime_tidy:
  assumes "tidy_dates d"
  shows "those (map (to_datetime_cell pd) d) = Some d"
proof -
  have c: "\<forall>x \<in> set d. to_datetime_cell pd x = Some x"
  proof
    fix x assume "x \<in> set d"
    with assms have "x = NaN \<or> is_ts x" by (auto simp: tidy_dates_def)
    then show "to_datetime_cell pd x = Some x"
      by (cases x) (auto simp: to_datetime_cell_def is_ts_def)
  qed
  then show ?thesis by (induction d) auto
qed

lemma to_numeric_floats:
  assumes "list_all is_float c"
  shows "map (to_numeric_cell pd) c = c"
proof -
  have "to_numeric_cell pd x = x" if "is_float x" for x
    using that by (cases x) (auto simp: to_numeric_cell_def is_float_def)
  with assms show ?thesis by (simp add: list_all_iff map_idI)
qed

end
